theory Spec2Isabelle
  imports Complex_Main "HOL-Library.Log_Nat" "HOL-Library.Code_Target_Numeral"
begin

section \<open>JavaScript Number values\<close>

text \<open>
  A JavaScript Number is an IEEE 754 binary64 value.  It is modelled in sign-magnitude
  form: \<open>Finite s m\<close> is the value with sign bit \<open>s\<close> (\<open>True\<close> for negative) and
  magnitude \<open>m \<ge> 0\<close>, an exact rational; \<open>Finite True 0\<close> is the negative zero.
  Every arithmetic result is rounded to the nearest binary64 value, ties to even.
\<close>

datatype number = NaN | Infinity bool | Finite bool rat

text \<open>Nearest integer, ties to the even neighbour.\<close>

definition rne :: "rat \<Rightarrow> int" where
  "rne x = (let n = \<lfloor>x\<rfloor>; r = x - of_int n in
            if r < 1 / 2 then n
            else if 1 / 2 < r then n + 1
            else if even n then n else n + 1)"

text \<open>The binary exponent of a positive rational: \<open>2 powi ilog2 q \<le> q < 2 powi (ilog2 q + 1)\<close>.\<close>

definition ilog2 :: "rat \<Rightarrow> int" where
  "ilog2 q = (let (n, d) = quotient_of q; e = bitlen n - bitlen d in
              if 2 powi e \<le> q then e else e - 1)"

text \<open>
  The spacing of binary64 values around \<open>q\<close>: 53 significant bits in the normal range,
  the fixed spacing \<open>2 powi (-1074)\<close> below \<open>2 powi (-1022)\<close> (subnormal values).
\<close>

definition bexp :: "rat \<Rightarrow> int" where
  "bexp q = max (ilog2 q) (- 1022)"

definition quantum :: "rat \<Rightarrow> rat" where
  "quantum q = 2 powi (bexp q - 52)"

text \<open>The nearest multiple of the spacing, before the check for overflow.\<close>

definition round_value :: "rat \<Rightarrow> rat" where
  "round_value q = of_int (rne (q / quantum q)) * quantum q"

text \<open>Rounding of a magnitude; \<open>None\<close> is the overflow to infinity.\<close>

definition round_mag :: "rat \<Rightarrow> rat option" where
  "round_mag q =
     (if q = 0 then Some 0
      else let v = round_value q in if 2 powi 1024 \<le> v then None else Some v)"

definition to_number :: "bool \<Rightarrow> rat \<Rightarrow> number" where
  "to_number s q = (case round_mag q of None \<Rightarrow> Infinity s | Some v \<Rightarrow> Finite s v)"

text \<open>The signed value of a finite number.\<close>

definition sval :: "bool \<Rightarrow> rat \<Rightarrow> rat" where
  "sval s m = (if s then - m else m)"

text \<open>A numeric literal of the source text, such as \<open>1.10\<close> or \<open>100\<close>.\<close>

definition lit :: "rat \<Rightarrow> number" where
  "lit q = to_number (q < 0) \<bar>q\<bar>"

fun isNaN :: "number \<Rightarrow> bool" where
  "isNaN NaN = True"
| "isNaN _ = False"

text \<open>The relation \<open>x < y\<close> of the language; it is false as soon as an operand is NaN.\<close>

fun js_lt :: "number \<Rightarrow> number \<Rightarrow> bool" where
  "js_lt NaN _ = False"
| "js_lt _ NaN = False"
| "js_lt (Infinity s) (Infinity t) = (s \<and> \<not> t)"
| "js_lt (Infinity s) (Finite t n) = s"
| "js_lt (Finite s m) (Infinity t) = (\<not> t)"
| "js_lt (Finite s m) (Finite t n) = (sval s m < sval t n)"

definition js_gt :: "number \<Rightarrow> number \<Rightarrow> bool" where
  "js_gt x y = js_lt y x"

definition js_le :: "number \<Rightarrow> number \<Rightarrow> bool" where
  "js_le x y = (\<not> isNaN x \<and> \<not> isNaN y \<and> \<not> js_lt y x)"

definition js_ge :: "number \<Rightarrow> number \<Rightarrow> bool" where
  "js_ge x y = (\<not> isNaN x \<and> \<not> isNaN y \<and> \<not> js_lt x y)"

text \<open>Division \<open>x / y\<close>.\<close>

fun js_div :: "number \<Rightarrow> number \<Rightarrow> number" where
  "js_div NaN _ = NaN"
| "js_div _ NaN = NaN"
| "js_div (Infinity s) (Infinity t) = NaN"
| "js_div (Infinity s) (Finite t n) = Infinity (s \<noteq> t)"
| "js_div (Finite s m) (Infinity t) = Finite (s \<noteq> t) 0"
| "js_div (Finite s m) (Finite t n) =
     (if n = 0 then (if m = 0 then NaN else Infinity (s \<noteq> t))
      else to_number (s \<noteq> t) (m / n))"

text \<open>Subtraction \<open>x - y\<close>.\<close>

fun js_sub :: "number \<Rightarrow> number \<Rightarrow> number" where
  "js_sub NaN _ = NaN"
| "js_sub _ NaN = NaN"
| "js_sub (Infinity s) (Infinity t) = (if s = t then NaN else Infinity s)"
| "js_sub (Infinity s) (Finite t n) = Infinity s"
| "js_sub (Finite s m) (Infinity t) = Infinity (\<not> t)"
| "js_sub (Finite s m) (Finite t n) =
     (let r = sval s m - sval t n in
      if r = 0 then Finite (s \<and> \<not> t) 0 else to_number (r < 0) \<bar>r\<bar>)"

section \<open>parseFloat\<close>

text \<open>
  Strings are sequences of 8-bit characters (the code units up to 255).  \<open>parseFloat\<close>
  skips leading white space, takes the longest prefix that is a decimal literal (an
  optional sign, then \<open>Infinity\<close> or digits with an optional fraction and an optional
  exponent) and returns its value, rounded to the nearest Number; with no such prefix
  the result is NaN.  For a literal of more than 20 significant digits the language
  standard also allows the value cut or incremented at the 20th digit; the model rounds
  the exact value, and every concrete literal below has at most 17 significant digits.
\<close>

definition is_digit :: "char \<Rightarrow> bool" where
  "is_digit c = (48 \<le> (of_char c :: nat) \<and> (of_char c :: nat) \<le> 57)"

definition is_space :: "char \<Rightarrow> bool" where
  "is_space c = ((of_char c :: nat) \<in> {9, 10, 11, 12, 13, 32, 160})"

definition digit_val :: "char \<Rightarrow> nat" where
  "digit_val c = of_char c - 48"

definition digits_val :: "string \<Rightarrow> nat" where
  "digits_val ds = foldl (\<lambda>a c. 10 * a + digit_val c) 0 ds"

fun split_sign :: "string \<Rightarrow> bool \<times> string" where
  "split_sign [] = (False, [])"
| "split_sign (c # cs) =
     (if c = CHR ''-'' then (True, cs)
      else if c = CHR ''+'' then (False, cs)
      else (False, c # cs))"

text \<open>The exponent part: \<open>e\<close> or \<open>E\<close>, an optional sign and at least one digit.\<close>

definition exponent_part :: "string \<Rightarrow> int" where
  "exponent_part r =
     (case r of
        [] \<Rightarrow> 0
      | c # cs \<Rightarrow>
          if c = CHR ''e'' \<or> c = CHR ''E'' then
            (let (neg, t) = split_sign cs; ds = takeWhile is_digit t in
             if ds = [] then 0
             else if neg then - int (digits_val ds) else int (digits_val ds))
          else 0)"

definition parseFloat :: "string \<Rightarrow> number" where
  "parseFloat str =
     (let (neg, r) = split_sign (dropWhile is_space str) in
      if take 8 r = ''Infinity'' then Infinity neg
      else
        let ip = takeWhile is_digit r;
            r1 = dropWhile is_digit r;
            (fp, r2) = (case r1 of
                          [] \<Rightarrow> ([], r1)
                        | c # cs \<Rightarrow>
                            if c = CHR ''.'' then (takeWhile is_digit cs, dropWhile is_digit cs)
                            else ([], r1))
        in if ip = [] \<and> fp = [] then NaN
           else to_number neg
                  (of_nat (digits_val (ip @ fp)) * 10 powi (exponent_part r2 - int (length fp))))"

section \<open>The page\<close>

text \<open>
  The elements of the document that the script reads and writes, one field for each
  property it touches; the elements are taken to exist.  Rendered numbers stay symbolic:
  \<open>ToFixed x d\<close> is the text \<open>x.toFixed(d)\<close>, whose digits are not computed here.
  The calls of \<open>alert\<close> are recorded in order, and each \<open>scrollIntoView\<close> of the
  result section is counted.
\<close>

datatype piece = Str string | ToFixed number nat

type_synonym content = "piece list"

text \<open>
  The three recommendation blocks written to \<open>recommendationText.innerHTML\<close>; the
  warning and the danger block interpolate \<open>targetLevel.toFixed(2)\<close>.
\<close>

datatype recommendation = SafeAdvice | WarningAdvice piece | DangerAdvice piece

record page =
  actualWaterLevel_value :: string
  criticalWaterLevel_value :: string
  safetyFactorNumber_text :: content
  displayActualLevel_text :: content
  displayCriticalLevel_text :: content
  safetyMargin_text :: content
  targetLevel_text :: content
  safetyFactorDisplay_class :: "string list"
  statusMessage_class :: "string list"
  recommendationText_class :: "string list"
  statusTitle_text :: string
  statusDescription_text :: string
  recommendationText_html :: "recommendation option"
  resultSection_display :: string
  resultSection_scrolls :: nat
  alerts :: "string list"

definition alert :: "string \<Rightarrow> page \<Rightarrow> page" where
  "alert msg p = p\<lparr>alerts := alerts p @ [msg]\<rparr>"

text \<open>\<open>classList.add\<close>: a token already present is not added again.\<close>

definition classList_add :: "string \<Rightarrow> string list \<Rightarrow> string list" where
  "classList_add c cs = (if c \<in> set cs then cs else cs @ [c])"

definition updateSafetyFactorDisplay ::
  "number \<Rightarrow> number \<Rightarrow> number \<Rightarrow> number \<Rightarrow> number \<Rightarrow> page \<Rightarrow> page" where
  "updateSafetyFactorDisplay fs actualLevel criticalLevel safetyMargin targetLevel p =
     (let p1 = p\<lparr>safetyFactorNumber_text := [ToFixed fs 2],
                 displayActualLevel_text := [ToFixed actualLevel 2, Str '' m''],
                 displayCriticalLevel_text := [ToFixed criticalLevel 2, Str '' m''],
                 safetyMargin_text := [ToFixed safetyMargin 2, Str '' m''],
                 targetLevel_text := [ToFixed targetLevel 2, Str '' m''],
                 safetyFactorDisplay_class := [''safety-factor-display''],
                 statusMessage_class := [''status-message''],
                 recommendationText_class := []\<rparr>
      in if js_ge fs (lit (110 / 100)) then
           p1\<lparr>safetyFactorDisplay_class := classList_add ''safe'' (safetyFactorDisplay_class p1),
              statusMessage_class := classList_add ''safe'' (statusMessage_class p1),
              recommendationText_class := classList_add ''safe'' (recommendationText_class p1),
              statusTitle_text := ''GEEN OPBARSTGEVAAR VERWACHT'',
              statusDescription_text :=
                ''De veiligheidsfactor is voldoende hoog. Het risico op opbarsten is minimaal.'',
              recommendationText_html := Some SafeAdvice\<rparr>
         else if js_ge fs (lit (100 / 100)) then
           p1\<lparr>safetyFactorDisplay_class := classList_add ''warning'' (safetyFactorDisplay_class p1),
              statusMessage_class := classList_add ''warning'' (statusMessage_class p1),
              recommendationText_class := classList_add ''warning'' (recommendationText_class p1),
              statusTitle_text := ''MOGELIJK OPBARSTGEVAAR'',
              statusDescription_text :=
                ''De veiligheidsfactor is laag. Verhoogde aandacht en monitoring zijn noodzakelijk.'',
              recommendationText_html := Some (WarningAdvice (ToFixed targetLevel 2))\<rparr>
         else
           p1\<lparr>safetyFactorDisplay_class := classList_add ''danger'' (safetyFactorDisplay_class p1),
              statusMessage_class := classList_add ''danger'' (statusMessage_class p1),
              recommendationText_class := classList_add ''danger'' (recommendationText_class p1),
              statusTitle_text := ''OPBARSTGEVAAR!'',
              statusDescription_text :=
                ''KRITIEKE SITUATIE: De veiligheidsfactor is te laag. Onmiddellijke actie vereist!'',
              recommendationText_html := Some (DangerAdvice (ToFixed targetLevel 2))\<rparr>)"

text \<open>The three messages of the validation, in the order of the checks.\<close>

definition msg_not_a_number :: string where
  "msg_not_a_number = ''Voer geldige waarden in voor beide stijghoogtes''"

definition msg_non_positive :: string where
  "msg_non_positive = ''Stijghoogtes moeten positieve waarden zijn''"

definition msg_out_of_range :: string where
  "msg_out_of_range = ''Stijghoogtes lijken onrealistisch hoog. Controleer de waarden.''"

definition calculateSafetyFactor :: "page \<Rightarrow> page" where
  "calculateSafetyFactor p =
     (let actualLevel = parseFloat (actualWaterLevel_value p);
          criticalLevel = parseFloat (criticalWaterLevel_value p)
      in if isNaN actualLevel \<or> isNaN criticalLevel then alert msg_not_a_number p
         else if js_le actualLevel (lit 0) \<or> js_le criticalLevel (lit 0) then
           alert msg_non_positive p
         else if js_gt actualLevel (lit 100) \<or> js_gt criticalLevel (lit 100) then
           alert msg_out_of_range p
         else
           let safetyFactor = js_div criticalLevel actualLevel;
               safetyMargin = js_sub criticalLevel actualLevel;
               targetLevel = js_div criticalLevel (lit (110 / 100));
               p1 = updateSafetyFactorDisplay safetyFactor actualLevel criticalLevel
                      safetyMargin targetLevel p;
               p2 = p1\<lparr>resultSection_display := ''block''\<rparr>
           in p2\<lparr>resultSection_scrolls := Suc (resultSection_scrolls p2)\<rparr>)"

section \<open>The input sanitizer\<close>

text \<open>\<open>s.split('.')\<close>: the pieces between the points; the empty string gives one empty piece.\<close>

fun split_dot :: "string \<Rightarrow> string list" where
  "split_dot [] = [[]]"
| "split_dot (c # cs) =
     (if c = CHR ''.'' then [] # split_dot cs
      else (case split_dot cs of
              [] \<Rightarrow> [[c]]
            | p # ps \<Rightarrow> (c # p) # ps))"

text \<open>The body of the \<open>input\<close> listener, as a function of the field's value.\<close>

definition sanitize :: "string \<Rightarrow> string" where
  "sanitize v =
     (let v1 = filter (\<lambda>c. is_digit c \<or> c = CHR ''.'') v;
          parts = split_dot v1
      in if length parts > 2 then hd parts @ ''.'' @ concat (tl parts) else v1)"

text \<open>
  The sanitizer in the words of its description: drop every character that is neither
  a digit nor a point; when more than one point is left, keep the text up to and
  including the first point and append the rest with its points removed.
\<close>

definition keeps :: "char \<Rightarrow> bool" where
  "keeps c = (is_digit c \<or> c = CHR ''.'')"

definition sanitize_spec :: "string \<Rightarrow> string" where
  "sanitize_spec s =
     (let t = filter keeps s in
      if 1 < count_list t CHR ''.'' then
        takeWhile (\<lambda>c. c \<noteq> CHR ''.'') t @ ''.'' @
        filter (\<lambda>c. c \<noteq> CHR ''.'') (dropWhile (\<lambda>c. c \<noteq> CHR ''.'') t)
      else t)"

section \<open>Example data and test pages\<close>

text \<open>\<open>loadExampleData\<close> fills the two fields with one of three fixed pairs.\<close>

definition loadExampleData :: "string \<Rightarrow> page \<Rightarrow> page" where
  "loadExampleData type p =
     (if type = ''safe'' then
        p\<lparr>actualWaterLevel_value := ''10.50'', criticalWaterLevel_value := ''12.00''\<rparr>
      else if type = ''warning'' then
        p\<lparr>actualWaterLevel_value := ''11.50'', criticalWaterLevel_value := ''12.00''\<rparr>
      else if type = ''danger'' then
        p\<lparr>actualWaterLevel_value := ''12.50'', criticalWaterLevel_value := ''12.00''\<rparr>
      else p)"

text \<open>
  A page before any evaluation, and the two fields as a user (or a script) leaves them.
\<close>

definition blank_page :: page where
  "blank_page =
     \<lparr>actualWaterLevel_value = [], criticalWaterLevel_value = [],
      safetyFactorNumber_text = [], displayActualLevel_text = [],
      displayCriticalLevel_text = [], safetyMargin_text = [], targetLevel_text = [],
      safetyFactorDisplay_class = [''safety-factor-display''],
      statusMessage_class = [''status-message''], recommendationText_class = [],
      statusTitle_text = [], statusDescription_text = [], recommendationText_html = None,
      resultSection_display = ''none'', resultSection_scrolls = 0, alerts = []\<rparr>"

definition enter :: "string \<Rightarrow> string \<Rightarrow> page \<Rightarrow> page" where
  "enter a c p = p\<lparr>actualWaterLevel_value := a, criticalWaterLevel_value := c\<rparr>"

text \<open>
  The decimal text of \<open>5e-324\<close>, written with digits and one point only: a zero, the
  point, 323 zeros and a five.
\<close>

definition tiny_level :: string where
  "tiny_level = ''0.'' @ replicate 323 CHR ''0'' @ ''5''"

section \<open>The description of the evaluation\<close>

text \<open>
  The three tiers of the description, decided from the safety factor from the highest
  threshold down, and the class name and the title the page shows for each.
\<close>

datatype tier = Safe | Warning | Danger

definition tier_of :: "number \<Rightarrow> tier" where
  "tier_of safetyFactor =
     (if js_ge safetyFactor (lit (110 / 100)) then Safe
      else if js_ge safetyFactor (lit (100 / 100)) then Warning
      else Danger)"

fun tier_class :: "tier \<Rightarrow> string" where
  "tier_class Safe = ''safe''"
| "tier_class Warning = ''warning''"
| "tier_class Danger = ''danger''"

fun tier_title :: "tier \<Rightarrow> string" where
  "tier_title Safe = ''GEEN OPBARSTGEVAAR VERWACHT''"
| "tier_title Warning = ''MOGELIJK OPBARSTGEVAAR''"
| "tier_title Danger = ''OPBARSTGEVAAR!''"

text \<open>The message of the first check that fails, in the order of the description.\<close>

definition validation_message :: "number \<Rightarrow> number \<Rightarrow> string" where
  "validation_message a c =
     (if isNaN a \<or> isNaN c then msg_not_a_number
      else if js_le a (lit 0) \<or> js_le c (lit 0) then msg_non_positive
      else msg_out_of_range)"

fun is_finite :: "number \<Rightarrow> bool" where
  "is_finite (Finite s m) = True"
| "is_finite _ = False"

text \<open>
  A decimal numeral as a user writes it: at least one digit, then possibly a point
  and further digits.
\<close>

definition decimal_numeral :: "string \<Rightarrow> bool" where
  "decimal_numeral s =
     (let ip = takeWhile is_digit s; r = dropWhile is_digit s in
      ip \<noteq> [] \<and> (r = [] \<or> (hd r = CHR ''.'' \<and> list_all is_digit (tl r))))"

section \<open>Properties of the rounding\<close>

lemma rne_of_int: "rne (of_int n) = n"
  by (simp add: rne_def)

lemma rne_near: "\<bar>x - of_int (rne x)\<bar> \<le> 1 / 2"
proof -
  define n where "n = \<lfloor>x\<rfloor>"
  have b: "of_int n \<le> x" "x < of_int n + 1" unfolding n_def by linarith+
  have "rne x = (if x - of_int n < 1 / 2 then n
                 else if 1 / 2 < x - of_int n then n + 1
                 else if even n then n else n + 1)"
    unfolding rne_def n_def Let_def ..
  then consider "rne x = n" "x - of_int n \<le> 1 / 2" | "rne x = n + 1" "1 / 2 \<le> x - of_int n"
    by (auto split: if_splits)
  then show ?thesis
  proof cases
    case 1 then show ?thesis using b by simp
  next
    case 2 then show ?thesis using b by simp
  qed
qed

lemma rne_unique:
  assumes "\<bar>x - of_int n\<bar> < 1 / 2"
  shows "rne x = n"
proof -
  have n: "\<bar>x - of_int (rne x)\<bar> \<le> 1 / 2" by (rule rne_near)
  have "\<bar>(of_int (rne x) :: rat) - of_int n\<bar> < 1" using assms n by linarith
  then have "\<bar>(of_int (rne x - n) :: rat)\<bar> < 1" by simp
  then have "\<bar>rne x - n\<bar> < 1" by (metis of_int_abs of_int_less_1_iff)
  then show ?thesis by linarith
qed

lemma rne_tie:
  assumes "\<bar>x - of_int n\<bar> \<le> 1 / 2" and "even n"
  shows "rne x = n"
proof (cases "\<bar>x - of_int n\<bar> < 1 / 2")
  case True then show ?thesis by (rule rne_unique)
next
  case False
  then have "x = of_int n + 1 / 2 \<or> x = of_int n - 1 / 2" using assms(1) by linarith
  then show ?thesis
  proof
    assume x: "x = of_int n + 1 / 2"
    have "\<lfloor>x\<rfloor> = n" unfolding x by linarith
    then show ?thesis using assms(2) x by (simp add: rne_def)
  next
    assume x: "x = of_int n - 1 / 2"
    have "\<lfloor>x\<rfloor> = n - 1" unfolding x by linarith
    then show ?thesis using assms(2) x by (simp add: rne_def Let_def)
  qed
qed

lemma rne_mono:
  assumes "x \<le> y"
  shows "rne x \<le> rne y"
proof (rule ccontr)
  assume "\<not> rne x \<le> rne y"
  then have lt: "rne y + 1 \<le> rne x" by simp
  then have lt': "(of_int (rne y) :: rat) + 1 \<le> of_int (rne x)"
    by (metis of_int_1 of_int_add of_int_le_iff)
  have a: "\<bar>x - of_int (rne x)\<bar> \<le> 1 / 2" and b: "\<bar>y - of_int (rne y)\<bar> \<le> 1 / 2"
    by (rule rne_near)+
  have xy: "x = y" and xm: "x = of_int (rne y) + 1 / 2" and d: "(of_int (rne x) :: rat) = of_int (rne y) + 1"
    using a b lt' assms by linarith+
  have e: "rne x = rne y + 1" using d by (metis of_int_1 of_int_add of_int_eq_iff)
  show False using e xy by simp
qed

lemma rne_ge: "of_int a \<le> x \<Longrightarrow> a \<le> rne x"
  using rne_mono [of "of_int a" x] by (simp add: rne_of_int)

lemma rne_le: "x \<le> of_int b \<Longrightarrow> rne x \<le> b"
  using rne_mono [of x "of_int b"] by (simp add: rne_of_int)

lemma bitlen_bounds_rat:
  assumes "0 < n"
  shows "(2::rat) powi (bitlen n - 1) \<le> of_int n" and "(of_int n :: rat) < 2 powi bitlen n"
proof -
  have b: "2 ^ nat (bitlen n - 1) \<le> n" "n < 2 ^ nat (bitlen n)"
    using bitlen_bounds [OF assms] by simp_all
  have p: "1 \<le> bitlen n" using assms bitlen_eq_zero_iff [of n] bitlen_nonneg [of n] by linarith
  have "(of_int (2 ^ nat (bitlen n - 1)) :: rat) \<le> of_int n" using b(1) by (simp only: of_int_le_iff)
  then show "(2::rat) powi (bitlen n - 1) \<le> of_int n" using p by (simp add: power_int_def)
  have "(of_int n :: rat) < of_int (2 ^ nat (bitlen n))" using b(2) by (simp only: of_int_less_iff)
  then show "(of_int n :: rat) < 2 powi bitlen n" using p by (simp add: power_int_def)
qed

lemma ilog2_bounds:
  assumes "0 < q"
  shows "2 powi ilog2 q \<le> q" and "q < 2 powi (ilog2 q + 1)"
proof -
  obtain n d where nd: "quotient_of q = (n, d)" by (cases "quotient_of q")
  have d: "0 < d" using nd by (rule quotient_of_denom_pos)
  have q: "q = of_int n / of_int d" using nd by (rule quotient_of_div)
  have n: "0 < n" using assms d unfolding q by (simp add: zero_less_divide_iff)
  define e where "e = bitlen n - bitlen d"
  have dr: "(0::rat) < of_int d" using d by simp
  have lo: "(2::rat) powi (e - 1) \<le> q"
  proof -
    have "(2::rat) powi (e - 1) * of_int d \<le> 2 powi (e - 1) * 2 powi bitlen d"
      using bitlen_bounds_rat(2) [OF d] by (intro mult_left_mono) simp_all
    also have "\<dots> = 2 powi (bitlen n - 1)" unfolding e_def by (simp flip: power_int_add)
    also have "\<dots> \<le> of_int n" by (rule bitlen_bounds_rat(1) [OF n])
    finally show ?thesis unfolding q using dr by (simp add: pos_le_divide_eq)
  qed
  have hi: "q < (2::rat) powi (e + 1)"
  proof -
    have "(of_int n :: rat) < 2 powi bitlen n" by (rule bitlen_bounds_rat(2) [OF n])
    also have "\<dots> = 2 powi (e + 1) * 2 powi (bitlen d - 1)" unfolding e_def by (simp flip: power_int_add)
    also have "\<dots> \<le> 2 powi (e + 1) * of_int d"
      using bitlen_bounds_rat(1) [OF d] by (intro mult_left_mono) simp_all
    finally show ?thesis unfolding q using dr by (simp add: pos_divide_less_eq)
  qed
  have il: "ilog2 q = (if 2 powi e \<le> q then e else e - 1)"
    unfolding ilog2_def nd e_def by simp
  show "2 powi ilog2 q \<le> q" using lo unfolding il by simp
  show "q < 2 powi (ilog2 q + 1)" using hi unfolding il by (simp add: not_le)
qed

lemma ilog2_unique:
  assumes "2 powi e \<le> q" and "q < 2 powi (e + 1)"
  shows "ilog2 q = e"
proof -
  have pos: "0 < q" using assms(1) by (rule less_le_trans [rotated]) simp
  have a: "(2::rat) powi ilog2 q < 2 powi (e + 1)"
    using ilog2_bounds(1) [OF pos] assms(2) by simp
  have b: "(2::rat) powi e < 2 powi (ilog2 q + 1)"
    using ilog2_bounds(2) [OF pos] assms(1) by simp
  have "ilog2 q < e + 1"
  proof (rule ccontr)
    assume "\<not> ilog2 q < e + 1"
    then have "(2::rat) powi (e + 1) \<le> 2 powi ilog2 q" by (intro power_int_increasing) simp_all
    then show False using a by simp
  qed
  moreover have "e < ilog2 q + 1"
  proof (rule ccontr)
    assume "\<not> e < ilog2 q + 1"
    then have "(2::rat) powi (ilog2 q + 1) \<le> 2 powi e" by (intro power_int_increasing) simp_all
    then show False using b by simp
  qed
  ultimately show ?thesis by simp
qed

lemma ilog2_mono:
  assumes "0 < p" and "p \<le> q"
  shows "ilog2 p \<le> ilog2 q"
proof (rule ccontr)
  assume "\<not> ilog2 p \<le> ilog2 q"
  then have "ilog2 q + 1 \<le> ilog2 p" by simp
  then have "(2::rat) powi (ilog2 q + 1) \<le> 2 powi ilog2 p" by (intro power_int_increasing) simp_all
  also have "\<dots> \<le> p" using assms(1) by (rule ilog2_bounds(1))
  finally have "2 powi (ilog2 q + 1) \<le> q" using assms(2) by simp
  moreover have "q < 2 powi (ilog2 q + 1)" using assms by (intro ilog2_bounds(2)) simp
  ultimately show False by simp
qed

lemma quantum_pos: "0 < quantum q"
  by (simp add: quantum_def)

lemma bexp_mono: "0 < p \<Longrightarrow> p \<le> q \<Longrightarrow> bexp p \<le> bexp q"
  using ilog2_mono [of p q] by (simp add: bexp_def)

lemma two_powi_52: "(2::rat) powi (e - 52) * 2 ^ 52 = 2 powi e"
proof -
  have "(2::rat) powi (e - 52 + 52) = 2 powi (e - 52) * 2 powi 52"
    by (rule power_int_add) simp
  then show ?thesis by simp
qed

lemma two_powi_53: "(2::rat) powi (e - 52) * 2 ^ 53 = 2 powi (e + 1)"
proof -
  have "(2::rat) powi (e - 52 + 53) = 2 powi (e - 52) * 2 powi 53"
    by (rule power_int_add) simp
  then show ?thesis by (simp add: add.commute)
qed

lemma round_value_upper:
  assumes "0 < q"
  shows "round_value q \<le> 2 powi (bexp q + 1)"
proof -
  have "q < 2 powi (ilog2 q + 1)" using assms by (rule ilog2_bounds(2))
  also have "\<dots> \<le> 2 powi (bexp q + 1)" by (intro power_int_increasing) (simp_all add: bexp_def)
  finally have "q \<le> 2 powi (bexp q + 1)" by simp
  then have "q / quantum q \<le> 2 powi (bexp q + 1) / quantum q"
    using quantum_pos [of q] by (simp add: divide_right_mono)
  also have "2 powi (bexp q + 1) / quantum q = of_int (2 ^ 53)"
    using two_powi_53 [of "bexp q"] quantum_pos [of q] by (simp add: quantum_def field_simps)
  finally have "rne (q / quantum q) \<le> 2 ^ 53" by (rule rne_le)
  then have "(of_int (rne (q / quantum q)) :: rat) \<le> of_int (2 ^ 53)" by (simp only: of_int_le_iff)
  then have "round_value q \<le> of_int (2 ^ 53) * quantum q"
    unfolding round_value_def using quantum_pos [of q] by (intro mult_right_mono) simp_all
  also have "\<dots> = 2 powi (bexp q + 1)"
    using two_powi_53 [of "bexp q"] by (simp add: quantum_def mult.commute)
  finally show ?thesis .
qed

lemma round_value_lower:
  assumes "0 < q" and "- 1022 \<le> ilog2 q"
  shows "2 powi bexp q \<le> round_value q"
proof -
  have be: "bexp q = ilog2 q" using assms(2) by (simp add: bexp_def)
  have "2 powi bexp q \<le> q" unfolding be using assms(1) by (rule ilog2_bounds(1))
  then have "2 powi bexp q / quantum q \<le> q / quantum q"
    using quantum_pos [of q] by (simp add: divide_right_mono)
  moreover have "2 powi bexp q / quantum q = of_int (2 ^ 52)"
    using two_powi_52 [of "bexp q"] quantum_pos [of q] by (simp add: quantum_def field_simps)
  ultimately have "of_int (2 ^ 52) \<le> q / quantum q" by simp
  then have "2 ^ 52 \<le> rne (q / quantum q)" by (rule rne_ge)
  then have "(of_int (2 ^ 52) :: rat) \<le> of_int (rne (q / quantum q))" by (simp only: of_int_le_iff)
  then have "of_int (2 ^ 52) * quantum q \<le> round_value q"
    unfolding round_value_def using quantum_pos [of q] by (intro mult_right_mono) simp_all
  moreover have "of_int (2 ^ 52) * quantum q = 2 powi bexp q"
    using two_powi_52 [of "bexp q"] by (simp add: quantum_def mult.commute)
  ultimately show ?thesis by simp
qed

lemma round_value_nonneg: "0 \<le> q \<Longrightarrow> 0 \<le> round_value q"
  unfolding round_value_def using quantum_pos [of q] rne_ge [of 0 "q / quantum q"]
  by (simp add: zero_le_mult_iff)

lemma round_value_mono:
  assumes "0 < p" and "p \<le> q"
  shows "round_value p \<le> round_value q"
proof (cases "bexp p = bexp q")
  case True
  then have u: "quantum p = quantum q" by (simp add: quantum_def)
  have "p / quantum q \<le> q / quantum q"
    using assms(2) quantum_pos [of q] by (simp add: divide_right_mono)
  then have "rne (p / quantum q) \<le> rne (q / quantum q)" by (rule rne_mono)
  then have "(of_int (rne (p / quantum q)) :: rat) \<le> of_int (rne (q / quantum q))"
    by (simp only: of_int_le_iff)
  then show ?thesis unfolding round_value_def u
    using quantum_pos [of q] by (intro mult_right_mono) simp_all
next
  case False
  have q: "0 < q" using assms by simp
  have lt: "bexp p + 1 \<le> bexp q" using False bexp_mono [OF assms] by simp
  then have n: "- 1022 \<le> ilog2 q" "- 1022 < bexp q" unfolding bexp_def by auto
  have "round_value p \<le> 2 powi (bexp p + 1)" using assms(1) by (rule round_value_upper)
  also have "\<dots> \<le> 2 powi bexp q" using lt by (intro power_int_increasing) simp_all
  also have "\<dots> \<le> round_value q" using q n(1) by (rule round_value_lower)
  finally show ?thesis .
qed

lemma round_value_exact:
  assumes "q / quantum q = of_int m"
  shows "round_value q = q"
proof -
  have "round_value q = of_int m * quantum q" unfolding round_value_def assms rne_of_int ..
  also have "\<dots> = q" using assms quantum_pos [of q] by (simp add: field_simps)
  finally show ?thesis .
qed

lemma bexp_normal:
  assumes "2 powi e \<le> q" and "q < 2 powi (e + 1)" and "- 1022 \<le> e"
  shows "bexp q = e"
  using ilog2_unique [OF assms(1,2)] assms(3) by (simp add: bexp_def)

lemma bexp_subnormal:
  assumes "0 < q" and "q < 2 powi (- 1022)"
  shows "bexp q = - 1022"
proof -
  have "ilog2 q < - 1022"
  proof (rule ccontr)
    assume "\<not> ilog2 q < - 1022"
    then have "(2::rat) powi (- 1022) \<le> 2 powi ilog2 q" by (intro power_int_increasing) simp_all
    also have "\<dots> \<le> q" using assms(1) by (rule ilog2_bounds(1))
    finally show False using assms(2) by simp
  qed
  then show ?thesis by (simp add: bexp_def)
qed

lemma round_mag_nearest:
  assumes "0 < q" and "bexp q = e"
    and "\<bar>q / 2 powi (e - 52) - of_int m\<bar> < 1 / 2"
    and "of_int m * 2 powi (e - 52) < (2::rat) powi 1024"
  shows "round_mag q = Some (of_int m * 2 powi (e - 52))"
proof -
  have u: "quantum q = 2 powi (e - 52)" by (simp add: quantum_def assms(2))
  have "rne (q / 2 powi (e - 52)) = m" using assms(3) by (rule rne_unique)
  then have "round_value q = of_int m * 2 powi (e - 52)" by (simp add: round_value_def u)
  then show ?thesis using assms(1,4) by (simp add: round_mag_def Let_def)
qed

lemma round_mag_exact:
  assumes "0 < q" and "bexp q = e"
    and "q / 2 powi (e - 52) = of_int m"
    and "q < 2 powi 1024"
  shows "round_mag q = Some q"
proof -
  have u: "quantum q = 2 powi (e - 52)" by (simp add: quantum_def assms(2))
  have "round_value q = q" using assms(3) unfolding u [symmetric] by (rule round_value_exact)
  then show ?thesis using assms(1,4) by (simp add: round_mag_def Let_def)
qed

lemma round_mag_nonneg:
  assumes "round_mag q = Some v" and "0 \<le> q"
  shows "0 \<le> v"
  using assms round_value_nonneg [of q] by (auto simp: round_mag_def Let_def split: if_splits)

lemma to_number_exact:
  assumes "2 powi e \<le> q" and "q < 2 powi (e + 1)" and "- 1022 \<le> e" and "e < 1024"
    and "q / 2 powi (e - 52) = of_int m"
  shows "to_number s q = Finite s q"
proof -
  have pos: "0 < q" using assms(1) by (rule less_le_trans [rotated]) simp
  have b: "bexp q = e" using assms(1-3) by (rule bexp_normal)
  have "(2::rat) powi (e + 1) \<le> 2 powi 1024" using assms(4) by (intro power_int_increasing) simp_all
  then have "q < 2 powi 1024" using assms(2) by simp
  then have "round_mag q = Some q" using pos b assms(5) by (intro round_mag_exact) 
  then show ?thesis by (simp add: to_number_def)
qed

lemma to_number_nearest:
  assumes "2 powi e \<le> q" and "q < 2 powi (e + 1)" and "- 1022 \<le> e" and "e < 1023"
    and "\<bar>q / 2 powi (e - 52) - of_int m\<bar> < 1 / 2"
  shows "to_number s q = Finite s (of_int m * 2 powi (e - 52))"
proof -
  have pos: "0 < q" using assms(1) by (rule less_le_trans [rotated]) simp
  have b: "bexp q = e" using assms(1-3) by (rule bexp_normal)
  have "of_int m * 2 powi (e - 52) = round_value q"
    using rne_unique [OF assms(5)] by (simp add: round_value_def quantum_def b)
  also have "\<dots> \<le> 2 powi (e + 1)" using round_value_upper [OF pos] by (simp add: b)
  also have "\<dots> < 2 powi 1024" using assms(4) by (intro power_int_strict_increasing) simp_all
  finally have "round_mag q = Some (of_int m * 2 powi (e - 52))"
    using pos b assms(5) by (intro round_mag_nearest)
  then show ?thesis by (simp add: to_number_def)
qed

lemma to_number_not_NaN: "\<not> isNaN (to_number s q)"
  by (simp add: to_number_def split: option.splits)

lemma to_number_mono:
  assumes "0 < p" and "p \<le> q"
  shows "js_ge (to_number False q) (to_number False p)"
proof -
  have q: "0 < q" using assms by simp
  have m: "round_value p \<le> round_value q" using assms by (rule round_value_mono)
  show ?thesis
  proof (cases "2 powi 1024 \<le> round_value q")
    case True
    then have "to_number False q = Infinity False"
      using q by (simp add: to_number_def round_mag_def)
    then show ?thesis
      by (cases "to_number False p") (auto simp: js_ge_def to_number_def split: option.splits)
  next
    case False
    then have "\<not> 2 powi 1024 \<le> round_value p" using m by simp
    then show ?thesis using False m assms(1) q
      by (simp add: to_number_def round_mag_def js_ge_def sval_def)
  qed
qed

lemma lit_0: "lit 0 = Finite False 0"
  by (simp add: lit_def to_number_def round_mag_def)

lemma lit_100: "lit 100 = Finite False 100"
proof -
  have b: "bexp 100 = 6" by (rule bexp_normal) simp_all
  have "round_mag 100 = Some 100"
    by (rule round_mag_exact [OF _ b, of "100 * 2 ^ 46"]) simp_all
  then show ?thesis by (simp add: lit_def to_number_def)
qed

lemma lit_1: "lit 1 = Finite False 1"
proof -
  have b: "bexp 1 = 0" by (rule bexp_normal) simp_all
  have "round_mag 1 = Some 1"
    by (rule round_mag_exact [OF _ b, of "2 ^ 52"]) simp_all
  then show ?thesis by (simp add: lit_def to_number_def)
qed

lemma lit_110: "lit (11 / 10) = Finite False (4953959590107546 / 2 ^ 52)"
proof -
  have b: "bexp (11 / 10) = 0" by (rule bexp_normal) simp_all
  have "round_mag (11 / 10) = Some (of_int 4953959590107546 * 2 powi (0 - 52))"
    by (rule round_mag_nearest [OF _ b]) simp_all
  then show ?thesis by (simp add: lit_def to_number_def)
qed

lemma ilog2_le:
  assumes "0 < v" and "v \<le> 2 powi k"
  shows "ilog2 v \<le> k"
proof (rule ccontr)
  assume "\<not> ilog2 v \<le> k"
  then have "(2::rat) powi k < 2 powi ilog2 v" by (intro power_int_strict_increasing) simp_all
  also have "\<dots> \<le> v" using assms(1) by (rule ilog2_bounds(1))
  finally show False using assms(2) by simp
qed

lemma bexp_ge: "- 1022 \<le> bexp q"
  by (simp add: bexp_def)

lemma two_powi_diff:
  assumes "j \<le> k"
  shows "(2::rat) powi (k - 52) = of_int (2 ^ nat (k - j)) * 2 powi (j - 52)"
proof -
  have "(2::rat) powi (k - j + (j - 52)) = 2 powi (k - j) * 2 powi (j - 52)"
    by (rule power_int_add) simp
  moreover have "(2::rat) powi (k - j) = 2 ^ nat (k - j)"
    using assms by (simp add: power_int_def)
  ultimately show ?thesis by simp
qed

lemma round_value_grid:
  assumes "0 < q"
  shows "\<exists>K. round_value q = of_int K * quantum (round_value q)"
proof -
  define v where "v = round_value q"
  define m where "m = rne (q / quantum q)"
  have v: "v = of_int m * 2 powi (bexp q - 52)"
    by (simp add: v_def m_def round_value_def quantum_def)
  have up: "v \<le> 2 powi (bexp q + 1)" unfolding v_def using assms by (rule round_value_upper)
  have nn: "0 \<le> v" unfolding v_def using assms by (intro round_value_nonneg) simp
  show ?thesis
  proof (cases "v = 0")
    case True
    then have "round_value q = of_int 0 * quantum (round_value q)" by (simp add: v_def)
    then show ?thesis ..
  next
    case False
    then have pos: "0 < v" using nn by simp
    have "ilog2 v \<le> bexp q + 1" using pos up by (rule ilog2_le)
    then have le: "bexp v \<le> bexp q + 1" using bexp_ge [of q] by (simp add: bexp_def)
    show ?thesis
    proof (cases "bexp v \<le> bexp q")
      case True
      have "v = of_int m * 2 powi (bexp q - 52)" by (rule v)
      also have "\<dots> = of_int m * (of_int (2 ^ nat (bexp q - bexp v)) * 2 powi (bexp v - 52))"
        by (subst two_powi_diff [OF True]) (rule refl)
      also have "\<dots> = of_int (m * 2 ^ nat (bexp q - bexp v)) * quantum v"
        by (simp add: quantum_def)
      finally show ?thesis unfolding v_def ..
    next
      case False
      then have b: "bexp v = bexp q + 1" using le by simp
      then have "ilog2 v = bexp q + 1" using bexp_ge [of q] by (simp add: bexp_def max_def split: if_splits)
      then have "2 powi (bexp q + 1) \<le> v" using ilog2_bounds(1) [OF pos] by simp
      then have "v = 2 powi (bexp q + 1)" using up by simp
      also have "\<dots> = 2 powi (bexp v - 52) * 2 ^ 52" unfolding b by (rule two_powi_52 [symmetric])
      also have "\<dots> = of_int (2 ^ 52) * quantum v" by (simp add: quantum_def)
      finally show ?thesis unfolding v_def ..
    qed
  qed
qed

lemma round_mag_grid:
  assumes "round_mag q = Some v" and "0 \<le> q"
  shows "\<exists>K. v = of_int K * quantum v"
proof (cases "q = 0")
  case True
  then have "v = of_int 0 * quantum v" using assms(1) by (simp add: round_mag_def)
  then show ?thesis ..
next
  case False
  then have "0 < q" using assms(2) by simp
  moreover have "v = round_value q"
    using assms(1) False by (simp add: round_mag_def Let_def split: if_splits)
  ultimately show ?thesis using round_value_grid by simp
qed

lemma to_number_subnormal:
  assumes "0 < q" and "q < 2 powi (- 1022)" and "\<bar>q * 2 ^ 1074 - of_int m\<bar> < 1 / 2"
  shows "to_number s q = Finite s (of_int m / 2 ^ 1074)"
proof -
  have b: "bexp q = - 1022" using assms(1,2) by (rule bexp_subnormal)
  have u: "quantum q = 1 / 2 ^ 1074" by (simp add: quantum_def b power_int_minus_divide)
  have "rne (q * 2 ^ 1074) = m" using assms(3) by (rule rne_unique)
  then have v: "round_value q = of_int m / 2 ^ 1074" by (simp add: round_value_def u)
  have "round_value q \<le> 2 powi (bexp q + 1)" using assms(1) by (rule round_value_upper)
  also have "\<dots> < 2 powi 1024" unfolding b by (intro power_int_strict_increasing) simp_all
  finally show ?thesis using assms(1) v by (simp add: to_number_def round_mag_def)
qed

lemma tiny_value: "to_number False (5 / 10 ^ 324) = Finite False (1 / 2 ^ 1074)"
  using to_number_subnormal [of "5 / 10 ^ 324" 1 False] by simp

lemma tiny_target:
  "to_number False (1 / 2 ^ 1074 / (4953959590107546 / 2 ^ 52)) = Finite False (1 / 2 ^ 1074)"
  using to_number_subnormal [of "1 / 2 ^ 1074 / (4953959590107546 / 2 ^ 52)" 1 False] by simp

text \<open>
  The quotient at the boundary.  With \<open>Y = 4953959590107546\<close> the literal \<open>1.10\<close> is
  \<open>Y / 2 ^ 52\<close>, and \<open>5 * Y = 11 * 2 ^ 51 + 2\<close>: the residue of a division by \<open>1.10\<close>
  is so small that dividing by the rounded quotient gives back \<open>1.10\<close> itself, as long
  as the rounded quotient keeps 53 significant bits.
\<close>

lemma boundary_residue:
  fixes K A :: int
  assumes "4503599627370496 \<le> A"
    and "2 * \<bar>K * 4503599627370496 - A * 4953959590107546\<bar> \<le> 4953959590107546"
  shows "2 * \<bar>K * 4503599627370496 - A * 4953959590107546\<bar> \<le> A"
proof (cases "4953959590107546 \<le> A")
  case True
  then show ?thesis using assms(2) by simp
next
  case False
  define D where "D = 10 * K - 11 * A"
  define R where "R = K * 4503599627370496 - A * 4953959590107546"
  have R: "5 * R = 2251799813685248 * D - 2 * A" by (simp add: R_def D_def)
  have "2 * \<bar>R\<bar> \<le> 4953959590107546" using assms(2) unfolding R_def .
  then have b1: "- 4953959590107546 \<le> 2 * R" and b2: "2 * R \<le> 4953959590107546"
    by (simp_all add: abs_if split: if_splits)
  note b = b1 b2
  have "D \<le> 9"
  proof (rule ccontr)
    assume "\<not> D \<le> 9"
    then have "10 \<le> D" by simp
    then have "2251799813685248 * 10 \<le> 2251799813685248 * D" by (intro mult_left_mono) simp_all
    then show False using R b False by linarith
  qed
  then have u: "2251799813685248 * D \<le> 2251799813685248 * 9" by (intro mult_left_mono) simp_all
  have "- 1 \<le> D"
  proof (rule ccontr)
    assume "\<not> - 1 \<le> D"
    then have "D \<le> - 2" by simp
    then have "2251799813685248 * D \<le> 2251799813685248 * (- 2)" by (intro mult_left_mono) simp_all
    then show False using R b assms(1) by linarith
  qed
  then have l: "2251799813685248 * (- 1) \<le> 2251799813685248 * D" by (intro mult_left_mono) simp_all
  have "- A \<le> 2 * R" using R u l assms(1) by linarith
  moreover have "2 * R \<le> A" using R u l assms(1) by linarith
  ultimately have "2 * \<bar>R\<bar> \<le> A" by (simp add: abs_if)
  then show ?thesis unfolding R_def .
qed

lemma boundary_quotient:
  fixes c :: rat and C :: int
  assumes cpos: "0 < c" and cgrid: "c = of_int C * quantum c"
    and an: "2 powi (- 1022) \<le> round_value (c / (4953959590107546 / 2 ^ 52))"
  shows "\<bar>c / round_value (c / (4953959590107546 / 2 ^ 52)) * 2 ^ 52 - 4953959590107546\<bar> \<le> 1 / 2"
proof -
  define y :: rat where "y = 4953959590107546 / 2 ^ 52"
  define q where "q = c / y"
  define u where "u = quantum q"
  define x where "x = q / u"
  define A where "A = rne x"
  define a where "a = round_value q"
  have y1: "1 \<le> y" and ypos: "0 < y" by (simp_all add: y_def)
  have qpos: "0 < q" using cpos ypos by (simp add: q_def)
  have qle: "q \<le> c" using cpos y1 ypos by (simp add: q_def pos_divide_le_eq mult_le_cancel_left1)
  have upos: "0 < u" by (simp add: u_def quantum_pos)
  have a: "a = of_int A * u" by (simp add: a_def A_def x_def u_def round_value_def)
  have an': "2 powi (- 1022) \<le> a" using an by (simp add: a_def q_def y_def)
  have lower: "2 powi bexp q \<le> a"
  proof (cases "- 1022 \<le> ilog2 q")
    case True
    with qpos show ?thesis unfolding a_def by (rule round_value_lower)
  next
    case False
    then have "bexp q = - 1022" by (simp add: bexp_def)
    then show ?thesis using an' by simp
  qed
  have "u * 2 ^ 52 = 2 powi bexp q" unfolding u_def quantum_def by (rule two_powi_52)
  then have "of_int (2 ^ 52) * u \<le> of_int A * u" using lower a by (simp add: mult.commute)
  then have "(of_int (2 ^ 52) :: rat) \<le> of_int A" using upos by (simp only: mult_le_cancel_right_pos)
  then have A52: "2 ^ 52 \<le> A" by (simp only: of_int_le_iff)
  then have Apos: "0 < A" by simp
  have near: "\<bar>x - of_int A\<bar> \<le> 1 / 2" unfolding A_def by (rule rne_near)
  have "bexp q \<le> bexp c" using qpos qle by (rule bexp_mono)
  then have "quantum c = of_int (2 ^ nat (bexp c - bexp q)) * u"
    unfolding quantum_def u_def by (rule two_powi_diff)
  then have "c = of_int (C * 2 ^ nat (bexp c - bexp q)) * u"
    using cgrid by simp
  then obtain K :: int where K: "c = of_int K * u" ..
  have xK: "x = of_int K / y" using upos by (simp add: x_def q_def K)
  have xY: "x * 4953959590107546 = of_int K * 2 ^ 52" unfolding xK y_def by simp
  define R :: int where "R = K * 4503599627370496 - A * 4953959590107546"
  have Rx: "of_int R = (x - of_int A) * 4953959590107546"
    using xY by (simp add: R_def algebra_simps)
  have "\<bar>(of_int R :: rat)\<bar> = \<bar>x - of_int A\<bar> * \<bar>4953959590107546\<bar>"
    unfolding Rx by (rule abs_mult)
  also have "\<dots> = \<bar>x - of_int A\<bar> * 4953959590107546" by simp
  also have "\<dots> \<le> 1 / 2 * 4953959590107546" using near by (intro mult_right_mono) simp_all
  finally have "(of_int (2 * \<bar>R\<bar>) :: rat) \<le> of_int 4953959590107546" by simp
  then have "2 * \<bar>R\<bar> \<le> 4953959590107546" by (simp only: of_int_le_iff)
  then have "2 * \<bar>R\<bar> \<le> A"
    unfolding R_def using A52 by (intro boundary_residue) simp_all
  then have "(of_int (2 * \<bar>R\<bar>) :: rat) \<le> of_int A" by (simp only: of_int_le_iff)
  then have RA: "\<bar>(of_int R :: rat)\<bar> / of_int A \<le> 1 / 2" using Apos by (simp add: field_simps)
  have ca: "c / a = of_int K / of_int A" using upos Apos by (simp add: K a)
  have "c / a * 2 ^ 52 - 4953959590107546 = of_int R / of_int A"
    unfolding ca R_def using Apos by (simp add: field_simps)
  then have "\<bar>c / a * 2 ^ 52 - 4953959590107546\<bar> = \<bar>(of_int R :: rat)\<bar> / of_int A"
    using Apos by simp
  then show ?thesis using RA by (simp add: a_def q_def y_def)
qed

lemma round_mag_boundary:
  assumes "\<bar>s * 2 ^ 52 - 4953959590107546\<bar> \<le> (1 / 2 :: rat)"
  shows "round_mag s = Some (4953959590107546 / 2 ^ 52)"
proof -
  have lo: "4503599627370496 \<le> s * 4503599627370496" and hi: "s * 4503599627370496 < 9007199254740992"
    using assms by (simp_all add: abs_if split: if_splits)
  have s1: "1 \<le> s" and s2: "s < 2" using lo hi by simp_all
  have b: "bexp s = 0" by (rule bexp_normal) (use s1 s2 in simp_all)
  have u: "quantum s = 1 / 2 ^ 52" by (simp add: quantum_def b power_int_minus_divide)
  have "rne (s * 2 ^ 52) = 4953959590107546" by (rule rne_tie) (use assms in simp_all)
  then have "round_value s = 4953959590107546 / 2 ^ 52" by (simp add: round_value_def u)
  then show ?thesis using s1 by (simp add: round_mag_def)
qed

section \<open>Comparisons and arithmetic on valid levels\<close>

lemma js_le_zero: "js_le x (lit 0) = (case x of NaN \<Rightarrow> False | Infinity s \<Rightarrow> s | Finite s m \<Rightarrow> sval s m \<le> 0)"
  by (cases x) (auto simp: js_le_def lit_0 sval_def)

lemma js_gt_hundred: "js_gt x (lit 100) = (case x of NaN \<Rightarrow> False | Infinity s \<Rightarrow> \<not> s | Finite s m \<Rightarrow> 100 < sval s m)"
  by (cases x) (auto simp: js_gt_def lit_100 sval_def)

lemma js_gt_zero: "js_gt x (lit 0) = (\<not> isNaN x \<and> \<not> js_le x (lit 0))"
  by (cases x) (auto simp: js_gt_def js_le_def lit_0)

lemma js_div_pos:
  assumes "0 < a"
  shows "js_div (Finite False c) (Finite False a) = to_number False (c / a)"
  using assms by simp

lemma js_sub_pos:
  "js_sub (Finite False c) (Finite False a) =
     (if c = a then Finite False 0 else to_number (c < a) \<bar>c - a\<bar>)"
  by (simp add: sval_def Let_def)

lemma valid_levels:
  assumes "0 < a" and "a \<le> 100"
  shows "\<not> isNaN (Finite False a)" "\<not> js_le (Finite False a) (lit 0)"
    "\<not> js_gt (Finite False a) (lit 100)"
  using assms by (simp_all add: js_le_zero js_gt_hundred sval_def)

lemma valid_is_finite:
  assumes "\<not> isNaN x" and "\<not> js_le x (lit 0)" and "\<not> js_gt x (lit 100)"
  shows "is_finite x"
  using assms by (cases x) (auto simp: js_le_zero js_gt_hundred)

section \<open>Values of parseFloat\<close>

lemmas parse_simps = parseFloat_def is_space_def is_digit_def digits_val_def digit_val_def
  exponent_part_def

lemma to_number_12: "to_number s 12 = Finite s 12"
  by (rule to_number_exact [of 3 _ "12 * 2 ^ 49"]) simp_all

lemma to_number_10_5: "to_number s (21 / 2) = Finite s (21 / 2)"
  by (rule to_number_exact [of 3 _ "21 * 2 ^ 48"]) simp_all

lemma to_number_11_5: "to_number s (23 / 2) = Finite s (23 / 2)"
  by (rule to_number_exact [of 3 _ "23 * 2 ^ 48"]) simp_all

lemma to_number_12_5: "to_number s (25 / 2) = Finite s (25 / 2)"
  by (rule to_number_exact [of 3 _ "25 * 2 ^ 48"]) simp_all

lemma to_number_1_5: "to_number s (3 / 2) = Finite s (3 / 2)"
  by (rule to_number_exact [of 0 _ "3 * 2 ^ 51"]) simp_all

lemma parse_abc: "parseFloat ''abc'' = NaN"
  by (simp add: parseFloat_def is_space_def is_digit_def)

lemma parse_150: "parseFloat ''150'' = Finite False 150"
proof -
  have "to_number False 150 = Finite False 150"
    by (rule to_number_exact [of 7 _ "150 * 2 ^ 45"]) simp_all
  then show ?thesis by (simp add: parse_simps)
qed

lemma parse_10: "parseFloat ''10'' = Finite False 10"
proof -
  have "to_number False 10 = Finite False 10"
    by (rule to_number_exact [of 3 _ "10 * 2 ^ 49"]) simp_all
  then show ?thesis by (simp add: parse_simps)
qed

lemma parse_minus_5: "parseFloat ''-5'' = Finite True 5"
proof -
  have "to_number True 5 = Finite True 5"
    by (rule to_number_exact [of 2 _ "5 * 2 ^ 50"]) simp_all
  then show ?thesis by (simp add: parse_simps)
qed

lemma parse_Infinity: "parseFloat ''Infinity'' = Infinity False"
  by (simp add: parse_simps)

lemma parse_12_00: "parseFloat ''12.00'' = Finite False 12"
  by (simp add: parse_simps to_number_12)

lemma parse_10_50: "parseFloat ''10.50'' = Finite False (21 / 2)"
  by (simp add: parse_simps to_number_10_5)

lemma parse_11_50: "parseFloat ''11.50'' = Finite False (23 / 2)"
  by (simp add: parse_simps to_number_11_5)

lemma parse_12_50: "parseFloat ''12.50'' = Finite False (25 / 2)"
  by (simp add: parse_simps to_number_12_5)

lemma parse_12abc: "parseFloat ''12abc'' = Finite False 12"
  by (simp add: parse_simps to_number_12)

lemma parse_12: "parseFloat ''12'' = Finite False 12"
  by (simp add: parse_simps to_number_12)

lemma quotient_12_10_5: "to_number False (8 / 7) = Finite False (5146971002709138 / 2 ^ 52)"
  using to_number_nearest [of 0 "8 / 7" 5146971002709138 False] by simp

lemma quotient_12_11_5: "to_number False (24 / 23) = Finite False (4699408306821387 / 2 ^ 52)"
  using to_number_nearest [of 0 "24 / 23" 4699408306821387 False] by simp

lemma quotient_12_12_5: "to_number False (24 / 25) = Finite False (8646911284551352 / 2 ^ 53)"
  using to_number_nearest [of "- 1" "24 / 25" 8646911284551352 False] by simp

lemma target_12:
  "to_number False (12 / (4953959590107546 / 2 ^ 52)) = Finite False (6141272219141585 / 2 ^ 49)"
  using to_number_nearest [of 3 "12 / (4953959590107546 / 2 ^ 52)" 6141272219141585 False] by simp

lemma takeWhile_no_digit: "list_all (\<lambda>ch. \<not> is_digit ch) r \<Longrightarrow> takeWhile is_digit r = []"
  by (cases r) simp_all

lemma dropWhile_no_digit: "list_all (\<lambda>ch. \<not> is_digit ch) r \<Longrightarrow> dropWhile is_digit r = r"
  by (cases r) simp_all

lemma split_sign_no_digit:
  "list_all (\<lambda>ch. \<not> is_digit ch) r \<Longrightarrow> list_all (\<lambda>ch. \<not> is_digit ch) (snd (split_sign r))"
  by (cases r) simp_all

lemma exponent_part_no_digit:
  assumes "list_all (\<lambda>ch. \<not> is_digit ch) r"
  shows "exponent_part r = 0"
proof (cases r)
  case Nil
  then show ?thesis by (simp add: exponent_part_def)
next
  case (Cons x xs)
  then have "list_all (\<lambda>ch. \<not> is_digit ch) xs" using assms by simp
  then have "takeWhile is_digit (snd (split_sign xs)) = []"
    by (intro takeWhile_no_digit split_sign_no_digit)
  then show ?thesis using Cons by (simp add: exponent_part_def split_beta)
qed

lemma digit_not_space: "is_digit x \<Longrightarrow> \<not> is_space x"
  by (auto simp: is_digit_def is_space_def)

lemma digit_not_sign: "is_digit x \<Longrightarrow> x \<noteq> CHR ''-'' \<and> x \<noteq> CHR ''+'' \<and> x \<noteq> CHR ''I'' \<and> x \<noteq> CHR ''.''"
  by (auto simp: is_digit_def)

text \<open>The parse of a string that starts with a digit, in terms of its pieces.\<close>

lemma parseFloat_digits:
  assumes "ip \<noteq> []" and "list_all is_digit ip" and "r = [] \<or> \<not> is_digit (hd r)"
  shows "parseFloat (ip @ r) =
     (let (fp, r2) = (case r of
                          [] \<Rightarrow> ([], r)
                        | x # xs \<Rightarrow>
                            if x = CHR ''.'' then (takeWhile is_digit xs, dropWhile is_digit xs)
                            else ([], r))
      in to_number False
           (of_nat (digits_val (ip @ fp)) * 10 powi (exponent_part r2 - int (length fp))))"
proof -
  obtain d ds where ip: "ip = d # ds" using assms(1) by (cases ip) auto
  have d: "is_digit d" using assms(2) ip by simp
  have sp: "dropWhile is_space (ip @ r) = ip @ r" using d ip by (simp add: digit_not_space)
  have sg: "split_sign (ip @ r) = (False, ip @ r)" using d ip by (simp add: digit_not_sign)
  have inf: "take 8 (ip @ r) \<noteq> ''Infinity''" using d ip by (auto simp: digit_not_sign)
  have tw: "takeWhile is_digit (ip @ r) = ip"
    using assms(2,3) by (cases r) (simp_all add: list_all_iff takeWhile_append2 )
  have dw: "dropWhile is_digit (ip @ r) = r"
    using assms(2,3) by (cases r) (simp_all add: list_all_iff dropWhile_append2)
  show ?thesis
    unfolding parseFloat_def sp sg using inf assms(1)
    by (simp add: tw dw Let_def split_beta)
qed

lemma parseFloat_append:
  assumes "decimal_numeral num" and "list_all (\<lambda>ch. \<not> is_digit ch) rest"
  shows "parseFloat (num @ rest) = parseFloat num" and "\<not> isNaN (parseFloat (num @ rest))"
proof -
  define ip where "ip = takeWhile is_digit num"
  define r where "r = dropWhile is_digit num"
  have num: "num = ip @ r" unfolding ip_def r_def by simp
  have ip: "ip \<noteq> []" "list_all is_digit ip"
    using assms(1) unfolding decimal_numeral_def ip_def Let_def
    by (simp_all add: list_all_iff del: takeWhile_eq_Nil_iff) (meson set_takeWhileD)
  have r: "r = [] \<or> (\<exists>fs. r = CHR ''.'' # fs \<and> list_all is_digit fs)"
    using assms(1) unfolding decimal_numeral_def r_def Let_def
    by (cases "dropWhile is_digit num") auto
  have rest: "rest = [] \<or> \<not> is_digit (hd rest)" using assms(2) by (cases rest) simp_all
  have e: "exponent_part rest = 0" using assms(2) by (rule exponent_part_no_digit)
  have eq: "parseFloat (num @ rest) = parseFloat num \<and> \<not> isNaN (parseFloat (num @ rest))"
    using r
  proof
    assume r0: "r = []"
    have a: "parseFloat (ip @ rest) = to_number False (of_nat (digits_val ip))"
    proof (cases rest)
      case Nil
      then show ?thesis using parseFloat_digits [OF ip, of "[]"]
        by (simp add: exponent_part_def)
    next
      case (Cons x xs)
      have xs: "list_all (\<lambda>ch. \<not> is_digit ch) xs" using assms(2) Cons by simp
      show ?thesis
        using parseFloat_digits [OF ip rest] Cons e exponent_part_no_digit [OF xs]
        by (simp add: takeWhile_no_digit [OF xs] dropWhile_no_digit [OF xs])
    qed
    have b: "parseFloat (ip @ []) = to_number False (of_nat (digits_val ip))"
      using parseFloat_digits [OF ip, of "[]"] by (simp add: exponent_part_def)
    show ?thesis using a b unfolding num r0 by (simp add: to_number_not_NaN)
  next
    assume "\<exists>fs. r = CHR ''.'' # fs \<and> list_all is_digit fs"
    then obtain fs where fs: "r = CHR ''.'' # fs" "list_all is_digit fs" by blast
    have tw: "takeWhile is_digit (fs @ rest) = fs" "dropWhile is_digit (fs @ rest) = rest"
      using fs(2) rest by (cases rest; simp add: list_all_iff)+
    have nd: "\<not> is_digit CHR ''.''" by (simp add: is_digit_def)
    have a: "parseFloat (ip @ (CHR ''.'' # fs @ rest)) =
        to_number False (of_nat (digits_val (ip @ fs)) * 10 powi (0 - int (length fs)))"
      using parseFloat_digits [OF ip, of "CHR ''.'' # fs @ rest"] nd e by (simp add: tw)
    have tw': "takeWhile is_digit fs = fs" "dropWhile is_digit fs = []"
      using fs(2) by (simp_all add: list_all_iff)
    have b: "parseFloat (ip @ (CHR ''.'' # fs)) =
        to_number False (of_nat (digits_val (ip @ fs)) * 10 powi (0 - int (length fs)))"
      using parseFloat_digits [OF ip, of "CHR ''.'' # fs"] nd
      by (simp add: tw' exponent_part_def)
    show ?thesis using a b unfolding num fs(1) by (simp add: to_number_not_NaN)
  qed
  show "parseFloat (num @ rest) = parseFloat num" using eq ..
  show "\<not> isNaN (parseFloat (num @ rest))" using eq ..
qed

lemma parseFloat_grid:
  assumes "parseFloat str = Finite s m"
  shows "0 \<le> m \<and> (\<exists>K. m = of_int K * quantum m)"
proof -
  have *: "0 \<le> m \<and> (\<exists>K. m = of_int K * quantum m)"
    if "to_number sg q = Finite s m" and "0 \<le> q" for sg q
  proof -
    have "round_mag q = Some m" using that(1) by (simp add: to_number_def split: option.splits)
    then show ?thesis using round_mag_grid round_mag_nonneg that(2) by blast
  qed
  have **: "(0::rat) \<le> of_nat n * 10 powi k" for n k by simp
  show ?thesis
    using assms * [OF _ **]
    unfolding parseFloat_def Let_def
    by (auto split: if_splits prod.splits list.splits)
qed

lemma parse_target_12: "parseFloat ''10.909090909090908'' = Finite False (6141272219141585 / 2 ^ 49)"
proof -
  have "to_number False (10909090909090908 / 10 ^ 15) = Finite False (of_int 6141272219141585 * 2 powi (3 - 52))"
    by (rule to_number_nearest) simp_all
  then show ?thesis by (simp add: parse_simps power_int_minus_divide)
qed

lemma parse_5e_324: "parseFloat ''5e-324'' = Finite False (1 / 2 ^ 1074)"
  using tiny_value by (simp add: parse_simps power_int_minus_divide)

lemma digits_val_zeros: "digits_val (replicate n CHR ''0'' @ ds) = digits_val ds"
proof -
  have "foldl (\<lambda>a c. 10 * a + digit_val c) 0 (replicate n CHR ''0'') = 0"
    by (induction n) (simp_all add: digit_val_def)
  then show ?thesis by (simp add: digits_val_def)
qed

lemma count_list_zeros: "count_list (replicate n CHR ''0'') CHR ''.'' = 0"
  by (induction n) simp_all

lemma parse_tiny_level: "parseFloat tiny_level = Finite False (1 / 2 ^ 1074)"
proof -
  let ?fp = "replicate 323 CHR ''0'' @ ''5''"
  have d: "\<forall>x \<in> set ?fp. is_digit x" by (simp add: is_digit_def)
  have tw: "takeWhile is_digit ?fp = ?fp" using d by (simp only: takeWhile_eq_all_conv)
  have dw: "dropWhile is_digit ?fp = []" using d by (simp only: dropWhile_eq_Nil_conv)
  have "digits_val (''0'' @ ?fp) = digits_val ?fp" by (simp add: digits_val_def digit_val_def)
  also have "\<dots> = digits_val ''5''" by (rule digits_val_zeros)
  also have "\<dots> = 5" by (simp add: digits_val_def digit_val_def)
  finally have dv: "digits_val (''0'' @ ?fp) = 5" .
  have "parseFloat (''0'' @ (CHR ''.'' # ?fp)) =
      to_number False (of_nat (digits_val (''0'' @ ?fp)) * 10 powi (0 - int (length ?fp)))"
    using parseFloat_digits [of "''0''" "CHR ''.'' # ?fp"]
    by (simp add: is_digit_def tw dw exponent_part_def)
  also have "\<dots> = to_number False (5 / 10 ^ 324)"
    unfolding dv by (simp add: power_int_minus_divide)
  finally have "parseFloat (''0'' @ (CHR ''.'' # ?fp)) = Finite False (1 / 2 ^ 1074)"
    unfolding tiny_value .
  then show ?thesis by (simp add: tiny_level_def)
qed

section \<open>The evaluation\<close>

lemma msgs_distinct:
  "msg_not_a_number \<noteq> msg_non_positive" "msg_not_a_number \<noteq> msg_out_of_range"
  "msg_non_positive \<noteq> msg_out_of_range"
  by (simp_all add: msg_not_a_number_def msg_non_positive_def msg_out_of_range_def)

lemma calculateSafetyFactor_alerts:
  "alerts (calculateSafetyFactor p) =
     (let a = parseFloat (actualWaterLevel_value p); c = parseFloat (criticalWaterLevel_value p) in
      if isNaN a \<or> isNaN c then alerts p @ [msg_not_a_number]
      else if js_le a (lit 0) \<or> js_le c (lit 0) then alerts p @ [msg_non_positive]
      else if js_gt a (lit 100) \<or> js_gt c (lit 100) then alerts p @ [msg_out_of_range]
      else alerts p)"
  by (simp add: calculateSafetyFactor_def Let_def alert_def updateSafetyFactorDisplay_def)

lemma calculateSafetyFactor_success:
  fixes p :: page
  defines "a \<equiv> parseFloat (actualWaterLevel_value p)"
    and "c \<equiv> parseFloat (criticalWaterLevel_value p)"
  assumes "\<not> isNaN a" "\<not> isNaN c" "\<not> js_le a (lit 0)" "\<not> js_le c (lit 0)"
    "\<not> js_gt a (lit 100)" "\<not> js_gt c (lit 100)"
  shows "calculateSafetyFactor p =
           (updateSafetyFactorDisplay (js_div c a) a c (js_sub c a) (js_div c (lit (110 / 100))) p)
             \<lparr>resultSection_display := ''block'',
              resultSection_scrolls := Suc (resultSection_scrolls p)\<rparr>"
  using assms(3-) unfolding a_def c_def
  by (simp add: calculateSafetyFactor_def Let_def updateSafetyFactorDisplay_def)

lemma no_alert_iff:
  fixes p :: page
  defines "a \<equiv> parseFloat (actualWaterLevel_value p)"
    and "c \<equiv> parseFloat (criticalWaterLevel_value p)"
  shows "alerts (calculateSafetyFactor p) = alerts p \<longleftrightarrow>
           \<not> isNaN a \<and> \<not> isNaN c \<and> \<not> js_le a (lit 0) \<and> \<not> js_le c (lit 0) \<and>
           \<not> js_gt a (lit 100) \<and> \<not> js_gt c (lit 100)"
  unfolding calculateSafetyFactor_alerts Let_def a_def c_def by auto

lemma calculateSafetyFactor_valid:
  assumes "parseFloat (actualWaterLevel_value p) = Finite False a" and "0 < a" and "a \<le> 100"
    and "parseFloat (criticalWaterLevel_value p) = Finite False c" and "0 < c" and "c \<le> 100"
  shows "calculateSafetyFactor p =
           (updateSafetyFactorDisplay (to_number False (c / a)) (Finite False a) (Finite False c)
              (if c = a then Finite False 0 else to_number (c < a) \<bar>c - a\<bar>)
              (to_number False (c / (4953959590107546 / 2 ^ 52))) p)
             \<lparr>resultSection_display := ''block'',
              resultSection_scrolls := Suc (resultSection_scrolls p)\<rparr>"
proof -
  have ok: "\<not> isNaN (parseFloat (actualWaterLevel_value p))"
    "\<not> isNaN (parseFloat (criticalWaterLevel_value p))"
    "\<not> js_le (parseFloat (actualWaterLevel_value p)) (lit 0)"
    "\<not> js_le (parseFloat (criticalWaterLevel_value p)) (lit 0)"
    "\<not> js_gt (parseFloat (actualWaterLevel_value p)) (lit 100)"
    "\<not> js_gt (parseFloat (criticalWaterLevel_value p)) (lit 100)"
    unfolding assms(1,4) using assms(2,3,5,6) by (simp_all add: valid_levels)
  show ?thesis
    unfolding calculateSafetyFactor_success [OF ok] assms(1,4) js_sub_pos js_div_pos [OF assms(2)]
    by (simp add: lit_110)
qed

lemma shown_safety_factor:
  assumes "parseFloat (actualWaterLevel_value p) = Finite False a" and "0 < a" and "a \<le> 100"
    and "parseFloat (criticalWaterLevel_value p) = Finite False c" and "0 < c" and "c \<le> 100"
  shows "safetyFactorNumber_text (calculateSafetyFactor p) = [ToFixed (to_number False (c / a)) 2]"
  unfolding calculateSafetyFactor_valid [OF assms]
  by (simp add: updateSafetyFactorDisplay_def Let_def)

lemma calculateSafetyFactor_actual_cong:
  assumes "parseFloat s = parseFloat t"
  shows "calculateSafetyFactor (p\<lparr>actualWaterLevel_value := s\<rparr>) =
         (calculateSafetyFactor (p\<lparr>actualWaterLevel_value := t\<rparr>))\<lparr>actualWaterLevel_value := s\<rparr>"
  using assms
  by (simp add: calculateSafetyFactor_def Let_def alert_def updateSafetyFactorDisplay_def)

lemma calculateSafetyFactor_critical_cong:
  assumes "parseFloat s = parseFloat t"
  shows "calculateSafetyFactor (p\<lparr>criticalWaterLevel_value := s\<rparr>) =
         (calculateSafetyFactor (p\<lparr>criticalWaterLevel_value := t\<rparr>))\<lparr>criticalWaterLevel_value := s\<rparr>"
  using assms
  by (simp add: calculateSafetyFactor_def Let_def alert_def updateSafetyFactorDisplay_def)

lemma tier_of_110: "tier_of (lit (110 / 100)) = Safe"
  by (simp add: tier_of_def lit_110 js_ge_def)

lemma tier_of_100: "tier_of (lit (100 / 100)) = Warning"
  by (simp add: tier_of_def lit_110 lit_1 js_ge_def sval_def)

lemma update_tier:
  "safetyFactorDisplay_class (updateSafetyFactorDisplay fs a c m t p) =
     [''safety-factor-display'', tier_class (tier_of fs)] \<and>
   statusMessage_class (updateSafetyFactorDisplay fs a c m t p) =
     [''status-message'', tier_class (tier_of fs)] \<and>
   recommendationText_class (updateSafetyFactorDisplay fs a c m t p) = [tier_class (tier_of fs)] \<and>
   statusTitle_text (updateSafetyFactorDisplay fs a c m t p) = tier_title (tier_of fs)"
  by (simp add: updateSafetyFactorDisplay_def tier_of_def classList_add_def Let_def)

lemma shown_tier:
  assumes "parseFloat (actualWaterLevel_value p) = Finite False a" and "0 < a" and "a \<le> 100"
    and "parseFloat (criticalWaterLevel_value p) = Finite False c" and "0 < c" and "c \<le> 100"
  shows "safetyFactorDisplay_class (calculateSafetyFactor p) =
           [''safety-factor-display'', tier_class (tier_of (to_number False (c / a)))]"
  unfolding calculateSafetyFactor_valid [OF assms] using update_tier by simp

lemma target_level_value:
  assumes "0 < c" and "c \<le> 100"
  shows "js_div (Finite False c) (lit (110 / 100)) =
           Finite False (round_value (c / (4953959590107546 / 2 ^ 52)))"
proof -
  let ?q = "c / (4953959590107546 / 2 ^ 52)"
  have q: "0 < ?q" using assms(1) by simp
  have "?q \<le> c" using assms(1) by (simp add: pos_divide_le_eq mult_le_cancel_left1)
  then have "?q \<le> 2 powi 7" using assms(2) by simp
  then have "ilog2 ?q \<le> 7" using q by (intro ilog2_le)
  then have "bexp ?q + 1 \<le> 8" by (simp add: bexp_def)
  then have "(2::rat) powi (bexp ?q + 1) \<le> 2 powi 8" by (intro power_int_increasing) simp_all
  then have "round_value ?q \<le> 2 powi 8" using round_value_upper [OF q] by simp
  then have "round_value ?q < 2 powi 1024" by simp
  then have "round_mag ?q = Some (round_value ?q)" using q by (simp add: round_mag_def)
  then show ?thesis by (simp add: lit_110 to_number_def)
qed

section \<open>Properties of the sanitizer\<close>

lemma split_dot_nonempty: "split_dot s \<noteq> []"
  by (induction s) (auto split: list.splits)

lemma length_split_dot: "length (split_dot s) = Suc (count_list s CHR ''.'')"
  using split_dot_nonempty by (induction s) (auto split: list.splits)

lemma hd_split_dot: "hd (split_dot s) = takeWhile (\<lambda>c. c \<noteq> CHR ''.'') s"
  using split_dot_nonempty by (induction s) (auto split: list.splits)

lemma concat_split_dot: "concat (split_dot s) = filter (\<lambda>c. c \<noteq> CHR ''.'') s"
  by (induction s) (auto split: list.splits)

lemma concat_tl_split_dot:
  "concat (tl (split_dot s)) =
     filter (\<lambda>c. c \<noteq> CHR ''.'') (dropWhile (\<lambda>c. c \<noteq> CHR ''.'') s)"
  using split_dot_nonempty by (induction s) (auto split: list.splits simp: concat_split_dot)

lemma sanitize_eq_spec: "sanitize s = sanitize_spec s"
  unfolding sanitize_def sanitize_spec_def Let_def keeps_def [symmetric]
  by (simp add: length_split_dot hd_split_dot concat_tl_split_dot keeps_def)

lemma count_takeWhile_dot: "count_list (takeWhile (\<lambda>c. c \<noteq> CHR ''.'') t) CHR ''.'' = 0"
  by (induction t) auto

lemma count_filter_dot: "count_list (filter (\<lambda>c. c \<noteq> CHR ''.'') t) CHR ''.'' = 0"
  by (induction t) auto

lemma sanitize_one_dot: "count_list (sanitize s) CHR ''.'' \<le> 1"
  unfolding sanitize_eq_spec sanitize_spec_def Let_def
  by (simp add: count_takeWhile_dot count_filter_dot)

lemma sanitize_keeps: "c \<in> set (sanitize s) \<Longrightarrow> keeps c"
  unfolding sanitize_eq_spec sanitize_spec_def Let_def
  by (auto simp: keeps_def split: if_splits dest: set_takeWhileD set_dropWhileD)

lemma sanitize_fixed:
  assumes "\<forall>c \<in> set r. keeps c" and "count_list r CHR ''.'' \<le> 1"
  shows "sanitize r = r"
proof -
  have "filter keeps r = r" using assms(1) by (simp add: filter_id_conv)
  then show ?thesis using assms(2) unfolding sanitize_eq_spec sanitize_spec_def Let_def by simp
qed

lemma sanitize_tiny_level: "sanitize tiny_level = tiny_level"
proof (rule sanitize_fixed)
  show "\<forall>c \<in> set tiny_level. keeps c"
    by (simp add: tiny_level_def keeps_def is_digit_def)
  show "count_list tiny_level CHR ''.'' \<le> 1"
    by (simp add: tiny_level_def count_list_zeros)
qed

text \<open>
  Claim C6.  For every string, the listener's computation (the regular-expression
  replacement, then \<open>split\<close>, \<open>slice\<close> and \<open>join\<close>) gives what the description says:
  the characters other than digits and points are removed, and when more than one
  point is left the text up to and including the first point is kept and the rest
  follows with its points stripped.  The function is defined on every string, and
  \<open>12.3.4.5\<close> becomes \<open>12.345\<close>.
\<close>

theorem sanitize_refines_description:
  "sanitize s = sanitize_spec s \<and> sanitize ''12.3.4.5'' = ''12.345''"
proof
  show "sanitize s = sanitize_spec s" by (rule sanitize_eq_spec)
  show "sanitize ''12.3.4.5'' = ''12.345''" by (simp add: sanitize_def is_digit_def)
qed

theorem sanitize_refines_description_witness:
  "sanitize ''a1..2b.3'' = ''1.23'' \<and> sanitize ''7.'' = ''7.'' \<and> sanitize ''x'' = []"
  using sanitize_refines_description [of "''a1..2b.3''"]
    sanitize_refines_description [of "''7.''"] sanitize_refines_description [of "''x''"]
  by (simp add: sanitize_spec_def keeps_def is_digit_def)

text \<open>
  Claim C7.  The sanitizer is idempotent: sanitizing a sanitized string changes nothing.
\<close>

theorem sanitize_idempotent: "sanitize (sanitize s) = sanitize s"
proof (rule sanitize_fixed)
  show "\<forall>c \<in> set (sanitize s). keeps c" by (simp add: sanitize_keeps)
  show "count_list (sanitize s) CHR ''.'' \<le> 1" by (rule sanitize_one_dot)
qed

theorem sanitize_idempotent_witness:
  "sanitize (sanitize ''1.2.3'') = ''1.23''"
  using sanitize_idempotent [of "''1.2.3''"] by (simp add: sanitize_def is_digit_def)

section \<open>The claims about the evaluation\<close>

text \<open>
  Claim C1.  When both fields parse to numbers in the interval from 0 (excluded) to
  100 (included), the evaluation raises no alert and shows the results: the safety
  factor is the quotient \<open>criticalLevel / actualLevel\<close>, the margin is the difference
  \<open>criticalLevel - actualLevel\<close>, and the target level is \<open>criticalLevel / 1.10\<close>, each
  as the language computes it (the exact result rounded to the nearest binary64 value;
  \<open>4953959590107546 / 2 ^ 52\<close> is the value of the literal \<open>1.10\<close>).  The target level
  does not mention the actual level.
\<close>

theorem evaluation_of_valid_levels:
  assumes "parseFloat (actualWaterLevel_value p) = Finite False a" and "0 < a" and "a \<le> 100"
    and "parseFloat (criticalWaterLevel_value p) = Finite False c" and "0 < c" and "c \<le> 100"
  shows "calculateSafetyFactor p =
           (updateSafetyFactorDisplay (to_number False (c / a)) (Finite False a) (Finite False c)
              (if c = a then Finite False 0 else to_number (c < a) \<bar>c - a\<bar>)
              (to_number False (c / (4953959590107546 / 2 ^ 52))) p)
             \<lparr>resultSection_display := ''block'',
              resultSection_scrolls := Suc (resultSection_scrolls p)\<rparr> \<and>
         alerts (calculateSafetyFactor p) = alerts p \<and>
         safetyFactorNumber_text (calculateSafetyFactor p) = [ToFixed (to_number False (c / a)) 2] \<and>
         safetyMargin_text (calculateSafetyFactor p) =
           [ToFixed (if c = a then Finite False 0 else to_number (c < a) \<bar>c - a\<bar>) 2, Str '' m''] \<and>
         targetLevel_text (calculateSafetyFactor p) =
           [ToFixed (to_number False (c / (4953959590107546 / 2 ^ 52))) 2, Str '' m'']"
  unfolding calculateSafetyFactor_valid [OF assms]
  by (simp add: updateSafetyFactorDisplay_def Let_def)

theorem evaluation_of_valid_levels_witness:
  "safetyFactorNumber_text (calculateSafetyFactor (loadExampleData ''safe'' blank_page)) =
     [ToFixed (Finite False (5146971002709138 / 2 ^ 52)) 2] \<and>
   safetyMargin_text (calculateSafetyFactor (loadExampleData ''safe'' blank_page)) =
     [ToFixed (Finite False (3 / 2)) 2, Str '' m''] \<and>
   targetLevel_text (calculateSafetyFactor (loadExampleData ''safe'' blank_page)) =
     [ToFixed (Finite False (6141272219141585 / 2 ^ 49)) 2, Str '' m''] \<and>
   alerts (calculateSafetyFactor (loadExampleData ''safe'' blank_page)) = []"
proof -
  have a: "parseFloat (actualWaterLevel_value (loadExampleData ''safe'' blank_page)) =
      Finite False (21 / 2)"
    by (simp add: loadExampleData_def parse_10_50)
  have c: "parseFloat (criticalWaterLevel_value (loadExampleData ''safe'' blank_page)) =
      Finite False 12"
    by (simp add: loadExampleData_def parse_12_00)
  have q: "to_number False (12 / (21 / 2)) = Finite False (5146971002709138 / 2 ^ 52)"
    using quotient_12_10_5 by simp
  have m: "to_number (12 < (21 / 2 :: rat)) \<bar>12 - 21 / 2\<bar> = Finite False (3 / 2)"
    using to_number_1_5 [of False] by simp
  have n: "alerts (loadExampleData ''safe'' blank_page) = []"
    by (simp add: loadExampleData_def blank_page_def)
  show ?thesis
    using evaluation_of_valid_levels [OF a _ _ c, THEN conjunct2]
    unfolding q m target_12 n by simp
qed

text \<open>
  Claim C2.  The tier shown is a function of the safety factor alone, decided from the
  highest threshold down: at least 1.10 is safe, otherwise at least 1.00 is warning,
  otherwise danger.  Whatever the other arguments and the page are, the class names and
  the title that \<open>updateSafetyFactorDisplay\<close> sets are those of \<open>tier_of fs\<close>; a
  successful evaluation shows the tier of its quotient; the value 1.10 itself is safe,
  1.00 itself is warning, and everything below 1.00 is danger.
\<close>

theorem tier_from_safety_factor:
  "safetyFactorDisplay_class (updateSafetyFactorDisplay fs a c m t p) =
     [''safety-factor-display'', tier_class (tier_of fs)] \<and>
   statusMessage_class (updateSafetyFactorDisplay fs a c m t p) =
     [''status-message'', tier_class (tier_of fs)] \<and>
   recommendationText_class (updateSafetyFactorDisplay fs a c m t p) = [tier_class (tier_of fs)] \<and>
   statusTitle_text (updateSafetyFactorDisplay fs a c m t p) = tier_title (tier_of fs) \<and>
   (alerts (calculateSafetyFactor p) = alerts p \<longrightarrow>
      safetyFactorDisplay_class (calculateSafetyFactor p) =
        [''safety-factor-display'',
         tier_class (tier_of (js_div (parseFloat (criticalWaterLevel_value p))
                                     (parseFloat (actualWaterLevel_value p))))]) \<and>
   tier_of (lit (110 / 100)) = Safe \<and>
   tier_of (lit (100 / 100)) = Warning \<and>
   (js_lt fs (lit (100 / 100)) \<longrightarrow> tier_of fs = Danger)"
proof -
  have 1: "safetyFactorDisplay_class (calculateSafetyFactor p) =
        [''safety-factor-display'',
         tier_class (tier_of (js_div (parseFloat (criticalWaterLevel_value p))
                                     (parseFloat (actualWaterLevel_value p))))]"
    if "alerts (calculateSafetyFactor p) = alerts p"
    using that unfolding no_alert_iff
    by (simp add: calculateSafetyFactor_success update_tier)
  have 2: "tier_of fs = Danger" if "js_lt fs (lit (100 / 100))"
  proof -
    have "\<not> js_ge fs (lit 1)" using that by (simp add: js_ge_def)
    moreover have "\<not> js_ge fs (lit (11 / 10))"
      using that by (cases fs) (auto simp: js_ge_def lit_1 lit_110 sval_def)
    ultimately show ?thesis by (simp add: tier_of_def)
  qed
  show ?thesis using 1 2 update_tier [of fs a c m t p] tier_of_110 tier_of_100 by simp
qed

theorem tier_from_safety_factor_witness:
  "safetyFactorDisplay_class (calculateSafetyFactor (loadExampleData ''safe'' blank_page)) =
     [''safety-factor-display'', ''safe''] \<and>
   safetyFactorDisplay_class (calculateSafetyFactor (loadExampleData ''warning'' blank_page)) =
     [''safety-factor-display'', ''warning''] \<and>
   safetyFactorDisplay_class (calculateSafetyFactor (loadExampleData ''danger'' blank_page)) =
     [''safety-factor-display'', ''danger'']"
proof -
  have s: "alerts (calculateSafetyFactor (loadExampleData ''safe'' blank_page)) =
      alerts (loadExampleData ''safe'' blank_page)"
    unfolding no_alert_iff
    by (simp add: loadExampleData_def parse_10_50 parse_12_00 valid_levels)
  have w: "alerts (calculateSafetyFactor (loadExampleData ''warning'' blank_page)) =
      alerts (loadExampleData ''warning'' blank_page)"
    unfolding no_alert_iff
    by (simp add: loadExampleData_def parse_11_50 parse_12_00 valid_levels)
  have d: "alerts (calculateSafetyFactor (loadExampleData ''danger'' blank_page)) =
      alerts (loadExampleData ''danger'' blank_page)"
    unfolding no_alert_iff
    by (simp add: loadExampleData_def parse_12_50 parse_12_00 valid_levels)
  have ts: "tier_of (Finite False (5146971002709138 / 2 ^ 52)) = Safe"
    by (simp add: tier_of_def lit_110 lit_1 js_ge_def sval_def)
  have tw: "tier_of (Finite False (4699408306821387 / 2 ^ 52)) = Warning"
    by (simp add: tier_of_def lit_110 lit_1 js_ge_def sval_def)
  have td: "tier_of (Finite False (8646911284551352 / 2 ^ 53)) = Danger"
    by (simp add: tier_of_def lit_110 lit_1 js_ge_def sval_def)
  show ?thesis
    using tier_from_safety_factor [of undefined undefined undefined undefined undefined
        "loadExampleData ''safe'' blank_page"]
      tier_from_safety_factor [of undefined undefined undefined undefined undefined
        "loadExampleData ''warning'' blank_page"]
      tier_from_safety_factor [of undefined undefined undefined undefined undefined
        "loadExampleData ''danger'' blank_page"] s w d
    by (simp add: loadExampleData_def parse_10_50 parse_11_50 parse_12_50 parse_12_00
        quotient_12_10_5 [simplified] quotient_12_11_5 [simplified]
        quotient_12_12_5 [simplified] ts [simplified] tw [simplified] td [simplified])
qed

text \<open>
  Claim C3.  The checks run in a fixed order and the first failure decides: a value
  that is not a number gives the first message whatever the ranges are; with two
  numbers, a value that is not positive gives the second message even when the other
  exceeds 100; the third message is given exactly when both values are positive numbers
  and one of them exceeds 100.
\<close>

theorem validation_order:
  fixes p :: page
  defines "a \<equiv> parseFloat (actualWaterLevel_value p)"
    and "c \<equiv> parseFloat (criticalWaterLevel_value p)"
  shows "(isNaN a \<or> isNaN c \<longrightarrow> calculateSafetyFactor p = alert msg_not_a_number p) \<and>
         (\<not> isNaN a \<and> \<not> isNaN c \<and> (js_le a (lit 0) \<or> js_le c (lit 0)) \<longrightarrow>
            calculateSafetyFactor p = alert msg_non_positive p) \<and>
         (calculateSafetyFactor p = alert msg_out_of_range p \<longleftrightarrow>
            \<not> isNaN a \<and> \<not> isNaN c \<and> js_gt a (lit 0) \<and> js_gt c (lit 0) \<and>
            (js_gt a (lit 100) \<or> js_gt c (lit 100)))"
proof -
  have 1: "calculateSafetyFactor p = alert msg_not_a_number p" if "isNaN a \<or> isNaN c"
    using that by (simp add: calculateSafetyFactor_def a_def c_def)
  have 2: "calculateSafetyFactor p = alert msg_non_positive p"
    if "\<not> isNaN a \<and> \<not> isNaN c \<and> (js_le a (lit 0) \<or> js_le c (lit 0))"
    using that by (simp add: calculateSafetyFactor_def a_def c_def)
  have 3: "calculateSafetyFactor p = alert msg_out_of_range p"
    if "\<not> isNaN a \<and> \<not> isNaN c \<and> js_gt a (lit 0) \<and> js_gt c (lit 0) \<and>
        (js_gt a (lit 100) \<or> js_gt c (lit 100))"
    using that by (simp add: calculateSafetyFactor_def a_def c_def js_gt_zero)
  have 4: "\<not> isNaN a \<and> \<not> isNaN c \<and> js_gt a (lit 0) \<and> js_gt c (lit 0) \<and>
        (js_gt a (lit 100) \<or> js_gt c (lit 100))"
    if "calculateSafetyFactor p = alert msg_out_of_range p"
  proof -
    have "alerts (calculateSafetyFactor p) = alerts p @ [msg_out_of_range]"
      using that by (simp add: alert_def)
    then show ?thesis
      unfolding calculateSafetyFactor_alerts Let_def a_def [symmetric] c_def [symmetric]
      using msgs_distinct by (auto simp: js_gt_zero split: if_splits)
  qed
  show ?thesis using 1 2 3 4 by blast
qed

theorem validation_order_witness:
  "calculateSafetyFactor (enter ''abc'' ''150'' blank_page) =
     alert msg_not_a_number (enter ''abc'' ''150'' blank_page) \<and>
   calculateSafetyFactor (enter ''-5'' ''150'' blank_page) =
     alert msg_non_positive (enter ''-5'' ''150'' blank_page) \<and>
   calculateSafetyFactor (enter ''150'' ''10'' blank_page) =
     alert msg_out_of_range (enter ''150'' ''10'' blank_page)"
  using validation_order [of "enter ''abc'' ''150'' blank_page"]
    validation_order [of "enter ''-5'' ''150'' blank_page"]
    validation_order [of "enter ''150'' ''10'' blank_page"]
  by (simp add: enter_def parse_abc parse_150 parse_10 parse_minus_5 js_le_zero js_gt_hundred
      js_gt_zero sval_def)

text \<open>
  Claim C4.  When any of the three checks fails, the evaluation ends with the alert:
  the resulting page is the page before with one message appended to its alerts, so no
  result field, class, text or visibility of the result section has changed.
\<close>

theorem failure_changes_nothing_but_the_alert:
  fixes p :: page
  defines "a \<equiv> parseFloat (actualWaterLevel_value p)"
    and "c \<equiv> parseFloat (criticalWaterLevel_value p)"
  assumes "isNaN a \<or> isNaN c \<or> js_le a (lit 0) \<or> js_le c (lit 0) \<or>
           js_gt a (lit 100) \<or> js_gt c (lit 100)"
  shows "calculateSafetyFactor p = p\<lparr>alerts := alerts p @ [validation_message a c]\<rparr>"
  using assms(3) unfolding a_def c_def
  by (auto simp: calculateSafetyFactor_def validation_message_def alert_def)

theorem failure_changes_nothing_but_the_alert_witness:
  "calculateSafetyFactor (enter ''150'' ''10'' blank_page) =
     (enter ''150'' ''10'' blank_page)\<lparr>alerts := [msg_out_of_range]\<rparr>"
  using failure_changes_nothing_but_the_alert [of "enter ''150'' ''10'' blank_page"]
  by (simp add: enter_def parse_150 parse_10 js_le_zero js_gt_hundred sval_def
      validation_message_def blank_page_def)

text \<open>
  Claim C5, as amended.  For every valid critical level: with the actual level equal to
  the critical level the safety factor is exactly 1.00 and the tier is warning; with the
  actual level set to the Number \<open>criticalLevel / 1.10\<close> the safety factor is exactly
  1.10 and the tier is safe, provided that this Number is at least \<open>2 powi (-1022)\<close>,
  the smallest normal binary64 value.
\<close>

theorem boundary_levels:
  assumes "parseFloat (criticalWaterLevel_value p) = Finite False c" and "0 < c" and "c \<le> 100"
  shows "(parseFloat (actualWaterLevel_value p) = Finite False c \<longrightarrow>
            safetyFactorNumber_text (calculateSafetyFactor p) = [ToFixed (lit (100 / 100)) 2] \<and>
            safetyFactorDisplay_class (calculateSafetyFactor p) =
              [''safety-factor-display'', tier_class Warning]) \<and>
         (parseFloat (actualWaterLevel_value p) = js_div (Finite False c) (lit (110 / 100)) \<and>
          js_ge (js_div (Finite False c) (lit (110 / 100))) (Finite False (2 powi (- 1022))) \<longrightarrow>
            safetyFactorNumber_text (calculateSafetyFactor p) = [ToFixed (lit (110 / 100)) 2] \<and>
            safetyFactorDisplay_class (calculateSafetyFactor p) =
              [''safety-factor-display'', tier_class Safe])"
proof (intro conjI impI)
  assume a: "parseFloat (actualWaterLevel_value p) = Finite False c"
  have one: "to_number False (c / c) = lit (100 / 100)"
    using assms(2) lit_1 by (simp add: lit_def)
  show "safetyFactorNumber_text (calculateSafetyFactor p) = [ToFixed (lit (100 / 100)) 2]"
    using shown_safety_factor [OF a assms(2,3) assms] one by simp
  show "safetyFactorDisplay_class (calculateSafetyFactor p) =
      [''safety-factor-display'', tier_class Warning]"
    using shown_tier [OF a assms(2,3) assms] one tier_of_100 by simp
next
  let ?y = "4953959590107546 / 2 ^ 52 :: rat"
  let ?a = "round_value (c / ?y)"
  assume h: "parseFloat (actualWaterLevel_value p) = js_div (Finite False c) (lit (110 / 100)) \<and>
          js_ge (js_div (Finite False c) (lit (110 / 100))) (Finite False (2 powi (- 1022)))"
  have t: "js_div (Finite False c) (lit (110 / 100)) = Finite False ?a"
    using assms(2,3) by (rule target_level_value)
  have a: "parseFloat (actualWaterLevel_value p) = Finite False ?a" using h t by simp
  have n: "2 powi (- 1022) \<le> ?a" using h unfolding t by (simp add: js_ge_def sval_def)
  obtain C where C: "c = of_int C * quantum c" using parseFloat_grid [OF assms(1)] by blast
  have apos: "0 < ?a" using n by (rule less_le_trans [rotated]) simp
  have "c / quantum c = of_int C" using C quantum_pos [of c] by (simp add: field_simps)
  then have cx: "round_value c = c" by (rule round_value_exact)
  have "c / ?y \<le> c" using assms(2) by (simp add: pos_divide_le_eq mult_le_cancel_left1)
  moreover have "0 < c / ?y" using assms(2) by simp
  ultimately have "?a \<le> round_value c" by (intro round_value_mono)
  then have a100: "?a \<le> 100" using cx assms(3) by simp
  have "round_mag (c / ?a) = Some ?y"
    using boundary_quotient [OF assms(2) C n] by (rule round_mag_boundary)
  then have s: "to_number False (c / ?a) = lit (110 / 100)" by (simp add: to_number_def lit_110)
  show "safetyFactorNumber_text (calculateSafetyFactor p) = [ToFixed (lit (110 / 100)) 2]"
    using shown_safety_factor [OF a apos a100 assms] s by simp
  show "safetyFactorDisplay_class (calculateSafetyFactor p) =
      [''safety-factor-display'', tier_class Safe]"
    using shown_tier [OF a apos a100 assms] s tier_of_110 by simp
qed

theorem boundary_levels_witness:
  "safetyFactorNumber_text (calculateSafetyFactor (enter ''10.909090909090908'' ''12'' blank_page)) =
     [ToFixed (Finite False (4953959590107546 / 2 ^ 52)) 2] \<and>
   safetyFactorDisplay_class (calculateSafetyFactor (enter ''10.909090909090908'' ''12'' blank_page)) =
     [''safety-factor-display'', ''safe''] \<and>
   safetyFactorNumber_text (calculateSafetyFactor (enter ''12'' ''12'' blank_page)) =
     [ToFixed (Finite False 1) 2] \<and>
   safetyFactorDisplay_class (calculateSafetyFactor (enter ''12'' ''12'' blank_page)) =
     [''safety-factor-display'', ''warning'']"
proof -
  let ?p = "enter ''10.909090909090908'' ''12'' blank_page"
  let ?q = "enter ''12'' ''12'' blank_page"
  have t: "js_div (Finite False 12) (lit (110 / 100)) = Finite False (6141272219141585 / 2 ^ 49)"
    using target_12 by (simp add: lit_110)
  have pc: "parseFloat (criticalWaterLevel_value ?p) = Finite False 12"
    by (simp add: enter_def parse_12)
  have pa: "parseFloat (actualWaterLevel_value ?p) = js_div (Finite False 12) (lit (110 / 100))"
    unfolding t by (simp add: enter_def parse_target_12)
  have n: "js_ge (js_div (Finite False 12) (lit (110 / 100))) (Finite False (2 powi (- 1022)))"
    unfolding t by (simp add: js_ge_def sval_def)
  have qc: "parseFloat (criticalWaterLevel_value ?q) = Finite False 12"
    by (simp add: enter_def parse_12)
  have qa: "parseFloat (actualWaterLevel_value ?q) = Finite False 12"
    by (simp add: enter_def parse_12)
  show ?thesis
    using boundary_levels [OF pc, THEN conjunct2] boundary_levels [OF qc, THEN conjunct1] pa n qa
    by (simp add: lit_110 lit_1)
qed

text \<open>
  Below that bound the claim fails as stated.  The critical level \<open>5e-324\<close>, entered in
  decimal digits so that the sanitizer leaves it alone, is positive and at most 100;
  \<open>criticalLevel / 1.10\<close> rounds to the same Number, so the actual level
  \<open>criticalLevel / 1.10\<close> gives the safety factor 1.00 and the tier warning.
\<close>

theorem tiny_level_is_not_safe:
  "sanitize tiny_level = tiny_level \<and>
   parseFloat tiny_level = parseFloat ''5e-324'' \<and>
   js_gt (parseFloat tiny_level) (lit 0) \<and>
   js_le (parseFloat tiny_level) (lit 100) \<and>
   js_div (parseFloat tiny_level) (lit (110 / 100)) = parseFloat tiny_level \<and>
   safetyFactorNumber_text (calculateSafetyFactor (enter tiny_level tiny_level blank_page)) =
     [ToFixed (lit (100 / 100)) 2] \<and>
   safetyFactorDisplay_class (calculateSafetyFactor (enter tiny_level tiny_level blank_page)) =
     [''safety-factor-display'', ''warning''] \<and>
   lit (100 / 100) \<noteq> lit (110 / 100)"
proof -
  let ?p = "enter tiny_level tiny_level blank_page"
  let ?t = "1 / 2 ^ 1074 :: rat"
  have pa: "parseFloat (actualWaterLevel_value ?p) = Finite False ?t"
    and pc: "parseFloat (criticalWaterLevel_value ?p) = Finite False ?t"
    by (simp_all add: enter_def parse_tiny_level)
  have pos: "0 < ?t" and le: "?t \<le> 100" by simp_all
  have one: "to_number False (?t / ?t) = Finite False 1" using lit_1 by (simp add: lit_def)
  have 1: "js_gt (parseFloat tiny_level) (lit 0)"
    by (simp add: parse_tiny_level js_gt_def lit_0 sval_def)
  have 2: "js_le (parseFloat tiny_level) (lit 100)"
    by (simp add: parse_tiny_level js_le_def lit_100 sval_def)
  have 3: "js_div (parseFloat tiny_level) (lit (110 / 100)) = parseFloat tiny_level"
    using tiny_target by (simp add: parse_tiny_level lit_110)
  have 4: "safetyFactorNumber_text (calculateSafetyFactor ?p) = [ToFixed (lit (100 / 100)) 2]"
    unfolding shown_safety_factor [OF pa pos le pc pos le] one by (simp add: lit_1)
  have 5: "safetyFactorDisplay_class (calculateSafetyFactor ?p) =
      [''safety-factor-display'', ''warning'']"
    unfolding shown_tier [OF pa pos le pc pos le] one using tier_of_100 by (simp add: lit_1)
  have 6: "lit (100 / 100) \<noteq> lit (110 / 100)" by (simp add: lit_1 lit_110)
  have 7: "parseFloat tiny_level = parseFloat ''5e-324''"
    by (simp add: parse_tiny_level parse_5e_324)
  show ?thesis using sanitize_tiny_level 1 2 3 4 5 6 7 by blast
qed

text \<open>
  Claim C8.  With the critical level fixed, a smaller valid actual level never gives a
  smaller safety factor: for valid levels \<open>a2 < a1\<close> the factor shown for \<open>a2\<close> is
  greater than or equal to the one shown for \<open>a1\<close>, in the order of the language.
\<close>

theorem safety_factor_monotone:
  assumes "parseFloat (criticalWaterLevel_value p1) = Finite False c"
    and "criticalWaterLevel_value p2 = criticalWaterLevel_value p1"
    and "parseFloat (actualWaterLevel_value p1) = Finite False a1"
    and "parseFloat (actualWaterLevel_value p2) = Finite False a2"
    and "0 < c" and "c \<le> 100" and "0 < a2" and "a2 < a1" and "a1 \<le> 100"
  shows "safetyFactorNumber_text (calculateSafetyFactor p1) = [ToFixed (to_number False (c / a1)) 2] \<and>
         safetyFactorNumber_text (calculateSafetyFactor p2) = [ToFixed (to_number False (c / a2)) 2] \<and>
         js_ge (to_number False (c / a2)) (to_number False (c / a1))"
proof -
  have a1: "0 < a1" and a2: "a2 \<le> 100" using assms(7,8,9) by simp_all
  have c2: "parseFloat (criticalWaterLevel_value p2) = Finite False c"
    using assms(1,2) by simp
  have "c / a1 \<le> c / a2" using assms(5,7,8) by (simp add: frac_le)
  moreover have "0 < c / a1" using assms(5) a1 by simp
  ultimately have "js_ge (to_number False (c / a2)) (to_number False (c / a1))"
    by (intro to_number_mono)
  then show ?thesis
    using shown_safety_factor [OF assms(3) a1 assms(9) assms(1) assms(5,6)]
      shown_safety_factor [OF assms(4) assms(7) a2 c2 assms(5,6)]
    by simp
qed

theorem safety_factor_monotone_witness:
  "safetyFactorNumber_text (calculateSafetyFactor (loadExampleData ''danger'' blank_page)) =
     [ToFixed (Finite False (8646911284551352 / 2 ^ 53)) 2] \<and>
   safetyFactorNumber_text (calculateSafetyFactor (loadExampleData ''safe'' blank_page)) =
     [ToFixed (Finite False (5146971002709138 / 2 ^ 52)) 2] \<and>
   js_ge (Finite False (5146971002709138 / 2 ^ 52)) (Finite False (8646911284551352 / 2 ^ 53))"
  using safety_factor_monotone [of "loadExampleData ''danger'' blank_page" 12
      "loadExampleData ''safe'' blank_page" "25 / 2" "21 / 2"]
  by (simp add: loadExampleData_def parse_10_50 parse_12_00 parse_12_50
      quotient_12_10_5 [simplified] quotient_12_12_5 [simplified])

text \<open>
  Claim C9.  A decimal numeral followed by characters that are not digits is not
  rejected: \<open>parseFloat\<close> returns the value of the numeral, so the evaluation proceeds
  exactly as if the numeral alone had been entered (only the field keeps its text);
  \<open>12abc\<close> is read as 12.
\<close>

theorem trailing_text_is_ignored:
  assumes "decimal_numeral num" and "list_all (\<lambda>ch. \<not> is_digit ch) rest"
  shows "parseFloat (num @ rest) = parseFloat num \<and>
         \<not> isNaN (parseFloat (num @ rest)) \<and>
         calculateSafetyFactor (p\<lparr>actualWaterLevel_value := num @ rest\<rparr>) =
           (calculateSafetyFactor (p\<lparr>actualWaterLevel_value := num\<rparr>))
             \<lparr>actualWaterLevel_value := num @ rest\<rparr> \<and>
         calculateSafetyFactor (p\<lparr>criticalWaterLevel_value := num @ rest\<rparr>) =
           (calculateSafetyFactor (p\<lparr>criticalWaterLevel_value := num\<rparr>))
             \<lparr>criticalWaterLevel_value := num @ rest\<rparr> \<and>
         parseFloat ''12abc'' = Finite False 12"
  using parseFloat_append [OF assms] parse_12abc
    calculateSafetyFactor_actual_cong [OF parseFloat_append(1) [OF assms]]
    calculateSafetyFactor_critical_cong [OF parseFloat_append(1) [OF assms]]
  by simp

theorem trailing_text_is_ignored_witness:
  "parseFloat ''12abc'' = parseFloat ''12'' \<and>
   calculateSafetyFactor (enter ''12abc'' ''12.50'' blank_page) =
     (calculateSafetyFactor (enter ''12'' ''12.50'' blank_page))
       \<lparr>actualWaterLevel_value := ''12abc''\<rparr>"
  using trailing_text_is_ignored [of "''12''" "''abc''" "enter ''12'' ''12.50'' blank_page"]
  by (simp add: decimal_numeral_def is_digit_def enter_def blank_page_def)

text \<open>
  Claim C10.  The text \<open>Infinity\<close> parses to positive infinity.  Positive infinity is
  a number and is positive, so with the other field a positive number the evaluation
  stops at the upper bound with the third message; and whenever an evaluation raises no
  alert, both parsed values are finite.
\<close>

theorem infinite_input_rejected:
  fixes p :: page
  defines "a \<equiv> parseFloat (actualWaterLevel_value p)"
    and "c \<equiv> parseFloat (criticalWaterLevel_value p)"
  shows "parseFloat ''Infinity'' = Infinity False \<and>
         (a = Infinity False \<and> js_gt c (lit 0) \<longrightarrow>
            calculateSafetyFactor p = alert msg_out_of_range p) \<and>
         (c = Infinity False \<and> js_gt a (lit 0) \<longrightarrow>
            calculateSafetyFactor p = alert msg_out_of_range p) \<and>
         (alerts (calculateSafetyFactor p) = alerts p \<longrightarrow> is_finite a \<and> is_finite c)"
proof -
  have 1: "calculateSafetyFactor p = alert msg_out_of_range p"
    if "a = Infinity False \<and> js_gt c (lit 0)"
    using that unfolding a_def c_def
    by (simp add: calculateSafetyFactor_def js_gt_zero js_le_zero js_gt_hundred)
  have 2: "calculateSafetyFactor p = alert msg_out_of_range p"
    if "c = Infinity False \<and> js_gt a (lit 0)"
    using that unfolding a_def c_def
    by (simp add: calculateSafetyFactor_def js_gt_zero js_le_zero js_gt_hundred)
  have 3: "is_finite a \<and> is_finite c" if "alerts (calculateSafetyFactor p) = alerts p"
    using that unfolding no_alert_iff a_def c_def by (simp add: valid_is_finite)
  show ?thesis using 1 2 3 parse_Infinity by blast
qed

theorem infinite_input_rejected_witness:
  "calculateSafetyFactor (enter ''Infinity'' ''10'' blank_page) =
     alert msg_out_of_range (enter ''Infinity'' ''10'' blank_page) \<and>
   calculateSafetyFactor (enter ''10'' ''Infinity'' blank_page) =
     alert msg_out_of_range (enter ''10'' ''Infinity'' blank_page) \<and>
   is_finite (parseFloat (actualWaterLevel_value (loadExampleData ''safe'' blank_page)))"
proof -
  have s: "alerts (calculateSafetyFactor (loadExampleData ''safe'' blank_page)) =
      alerts (loadExampleData ''safe'' blank_page)"
    unfolding no_alert_iff
    by (simp add: loadExampleData_def parse_10_50 parse_12_00 valid_levels)
  show ?thesis
    using infinite_input_rejected [of "enter ''Infinity'' ''10'' blank_page"]
      infinite_input_rejected [of "enter ''10'' ''Infinity'' blank_page"]
      infinite_input_rejected [of "loadExampleData ''safe'' blank_page"] s
    by (simp add: enter_def parse_Infinity parse_10 js_gt_zero js_le_zero sval_def)
qed

end
